theory Spec2Isabelle
  imports Complex_Main
begin

section \<open>Mandelbrot visualizer: view state, history and render pipeline\<close>

text \<open>
  A shallow embedding of \<^verbatim>\<open>X9Z3_Mandelbrot-Visualizer.py\<close>. Python integers are
  \<^typ>\<open>int\<close>. Floats that come from the pointer, the colours and the depth field are
  idealised as \<^typ>\<open>real\<close>; the bounds of the view, which the user can type in, and
  everything computed from them are of the type \<open>pyfloat\<close> below, a real number or NaN.
  Every place where the Python raises is a branch returning \<open>Inl\<close>. Lists keep Python's
  orientation: \<^verbatim>\<open>append\<close> adds at the end, \<^verbatim>\<open>pop()\<close> removes the last element. The
  four-element lists \<^verbatim>\<open>[x_min, x_max, y_min, y_max]\<close> and the two-element lists
  \<^verbatim>\<open>[height, width]\<close> are tuples. Display side effects (overlay curves, button
  colours, the loading label, \<^verbatim>\<open>scene.range\<close>, \<^verbatim>\<open>sleep\<close>, the text of the dimensions
  read-out) are not part of the model; \<^verbatim>\<open>print\<close> appends to the field \<open>console\<close>.
\<close>

subsection \<open>Errors and vectors\<close>

datatype error = IndexError | ZeroDivisionError | ValueError | TypeError

datatype vec = vec (vx: real) (vy: real) (vz: real)

subsection \<open>Floats that may be NaN\<close>

text \<open>
  A float is a real number (no rounding, no overflow, no infinities) or NaN. Arithmetic
  with NaN gives NaN, and every comparison with NaN is false, as in Python: \<open>a \<ge> b\<close>
  and \<open>a < b\<close> can both be false. Division is only used where the divisor was tested
  first; \<^verbatim>\<open>sqrt\<close> is only applied to sums of squares.
\<close>

datatype pyfloat = Num real | NaN

instantiation pyfloat :: "{zero, one, plus, minus, uminus, times, inverse, ord}"
begin

definition zero_pyfloat_def: "0 = Num 0"

definition one_pyfloat_def: "1 = Num 1"

definition plus_pyfloat_def:
  "a + b = (case (a, b) of (Num x, Num y) \<Rightarrow> Num (x + y) | _ \<Rightarrow> NaN)"

definition minus_pyfloat_def:
  "a - b = (case (a, b) of (Num x, Num y) \<Rightarrow> Num (x - y) | _ \<Rightarrow> NaN)"

definition uminus_pyfloat_def:
  "- a = (case a of Num x \<Rightarrow> Num (- x) | NaN \<Rightarrow> NaN)"

definition times_pyfloat_def:
  "a * b = (case (a, b) of (Num x, Num y) \<Rightarrow> Num (x * y) | _ \<Rightarrow> NaN)"

definition divide_pyfloat_def:
  "a div b = (case (a, b) of (Num x, Num y) \<Rightarrow> Num (x / y) | _ \<Rightarrow> NaN)"

definition inverse_pyfloat_def:
  "inverse a = (case a of Num x \<Rightarrow> Num (inverse x) | NaN \<Rightarrow> NaN)"

definition less_eq_pyfloat_def:
  "a \<le> b = (case (a, b) of (Num x, Num y) \<Rightarrow> x \<le> y | _ \<Rightarrow> False)"

definition less_pyfloat_def:
  "a < b = (case (a, b) of (Num x, Num y) \<Rightarrow> x < y | _ \<Rightarrow> False)"

instance ..

end

instance pyfloat :: semigroup_add
proof
  fix a b c :: pyfloat
  show "a + b + c = a + (b + c)"
    by (cases a; cases b; cases c) (simp_all add: plus_pyfloat_def)
qed

instance pyfloat :: numeral ..

instance pyfloat :: power ..

definition py_sqrt :: "pyfloat \<Rightarrow> pyfloat" where
  "py_sqrt a = (case a of Num x \<Rightarrow> Num (sqrt x) | NaN \<Rightarrow> NaN)"

type_synonym dims = "pyfloat \<times> pyfloat \<times> pyfloat \<times> pyfloat"

type_synonym resolution = "int \<times> int"

subsection \<open>Colormaps (lines 65-119)\<close>

text \<open>
  \<^verbatim>\<open>sqrt\<close> of a negative number raises \<^verbatim>\<open>ValueError\<close>; a negative float raised to the
  power \<^verbatim>\<open>1/6\<close> is a complex number, which \<^verbatim>\<open>vec\<close> refuses.
\<close>

definition colormaps :: "vec \<Rightarrow> string \<Rightarrow> error + vec" where
  "colormaps colors cmap =
     (if cmap = ''spectral'' then
        Inr (vec \<bar>sin (100 * vx colors + 1)\<bar>
                 (sin (100 * vy colors + 2))
                 (sin (100 * vz colors + 3)))
      else if cmap = ''inferno'' then
        (if vx colors < 0 then Inl ValueError
         else Inr (vec (sqrt (vx colors))
                       ((vy colors) ^ 2)
                       (- 5 * (vz colors - 0.2) ^ 2 + 0.2)))
      else if cmap = ''viridis'' then
        Inr (vec (sin (vx colors + 0.5) ^ 16)
                 (vy colors)
                 (- 3 * (vz colors - 0.38) ^ 2 + 0.6))
      else if cmap = ''plasma'' then
        (if vy colors < 0 then Inl TypeError
         else Inr (vec (sin (vx colors))
                       ((vy colors) ^ 10 + (vy colors) powr (1 / 6) - 0.8)
                       (- vz colors + 1)))
      else
        Inr (vec (sin (vx colors + 0.9) ^ 30)
                 (sin (vy colors + 0.97) ^ 80 * 0.9)
                 (- (((vz colors + 0.5) ^ 6 - 0.8) ^ 2) + 1)))"

text \<open>
  The five formulas as the specification words them (section 4.1), for comparison with
  \<^const>\<open>colormaps\<close>.
\<close>

definition spec_default :: "vec \<Rightarrow> vec" where
  "spec_default c =
     vec (sin (vx c + 0.9) ^ 30) (0.9 * sin (vy c + 0.97) ^ 80) (1 - ((vz c + 0.5) ^ 6 - 0.8) ^ 2)"

definition spec_inferno :: "vec \<Rightarrow> vec" where
  "spec_inferno c = vec (sqrt (vx c)) ((vy c) ^ 2) (0.2 - 5 * (vz c - 0.2) ^ 2)"

definition spec_viridis :: "vec \<Rightarrow> vec" where
  "spec_viridis c = vec (sin (vx c + 0.5) ^ 16) (vy c) (0.6 - 3 * (vz c - 0.38) ^ 2)"

definition spec_plasma :: "vec \<Rightarrow> vec" where
  "spec_plasma c = vec (sin (vx c)) ((vy c) ^ 10 + (vy c) powr (1 / 6) - 0.8) (1 - vz c)"

definition spec_spectral :: "vec \<Rightarrow> vec" where
  "spec_spectral c = vec \<bar>sin (100 * vx c + 1)\<bar> (sin (100 * vy c + 2)) (sin (100 * vz c + 3))"

definition colormap_choices :: "string list" where
  "colormap_choices = [''default'', ''inferno'', ''viridis'', ''spectral'', ''plasma'']"

subsection \<open>String splitting (lines 122-156)\<close>

fun split_loop :: "string \<Rightarrow> string \<Rightarrow> string \<Rightarrow> string list \<Rightarrow> string list" where
  "split_loop [] separator current_word split_string = split_string @ [current_word]"
| "split_loop (s # rest) separator current_word split_string =
     (if [s] = separator
      then split_loop rest separator [] (split_string @ [current_word])
      else split_loop rest separator (current_word @ [s]) split_string)"

definition split :: "string option \<Rightarrow> string \<Rightarrow> string list" where
  "split string separator =
     (case string of None \<Rightarrow> [] | Some str \<Rightarrow> split_loop str separator [] [])"

subsection \<open>Escape-time iteration and pixel colour (lines 598-613)\<close>

function escape_time ::
  "pyfloat \<Rightarrow> pyfloat \<Rightarrow> pyfloat \<Rightarrow> pyfloat \<Rightarrow> int \<Rightarrow> int \<Rightarrow> int" where
  "escape_time c_re c_im z_re z_im n max_iter =
     (if py_sqrt (z_re ^ 2 + z_im ^ 2) \<le> 2 \<and> n < max_iter
      then escape_time c_re c_im
             (z_re * z_re - z_im * z_im + c_re) (2 * z_re * z_im + c_im) (n + 1) max_iter
      else n)"
  by pat_completeness auto
termination
  by (relation "measure (\<lambda>(c_re, c_im, z_re, z_im, n, max_iter). nat (max_iter - n))") auto

declare escape_time.simps [simp del]

definition pixel_color :: "int \<Rightarrow> int \<Rightarrow> string \<Rightarrow> error + vec" where
  "pixel_color n max_iter cmap =
     (if n = max_iter then Inr (vec 0 0 0)
      else if max_iter = 0 then Inl ZeroDivisionError
      else (let t = real_of_int n / real_of_int max_iter
            in colormaps (vec (1 * t) (1 * t) (1 * t)) cmap))"

subsection \<open>Aspect-ratio locking of the selection box (lines 246-269)\<close>

text \<open>
  One pass of the body of the drag loop: from the start point and the current pointer
  position to the opposite corner of the locked box. Dividing a float by \<open>0.0\<close> raises
  \<^verbatim>\<open>ZeroDivisionError\<close>.
\<close>

definition resize_box_sample :: "vec \<Rightarrow> vec \<Rightarrow> error + vec" where
  "resize_box_sample starting_mouse_pos current_mouse_pos =
     (let current_box_width = \<bar>vx current_mouse_pos - vx starting_mouse_pos\<bar>;
          current_box_height = \<bar>vy current_mouse_pos - vy starting_mouse_pos\<bar>;
          corner_sign_x = (if vx current_mouse_pos > vx starting_mouse_pos then 1 else - 1);
          corner_sign_y = (if vy current_mouse_pos > vy starting_mouse_pos then 1 else - 1)
      in if current_box_width = 0 then Inl ZeroDivisionError
         else if current_box_height / current_box_width > 3 / 2 then
           Inr (vec (vx starting_mouse_pos + corner_sign_x * current_box_height * 3 / 2)
                    (vy current_mouse_pos)
                    0)
         else
           Inr (vec (vx current_mouse_pos)
                    (vy starting_mouse_pos + corner_sign_y * current_box_width * 2 / 3)
                    0))"

subsection \<open>Geometry objects and the Mandelbrot object (lines 515-560)\<close>

record vertex =
  pos :: vec
  color :: vec

record quad =
  v0 :: "vertex option"
  v1 :: "vertex option"
  v2 :: "vertex option"
  v3 :: "vertex option"
  visible :: bool

definition blank_vertex :: vertex where
  "blank_vertex = \<lparr>pos = vec 0 0 0, color = vec 0 0 0\<rparr>"

definition blank_quad :: quad where
  "blank_quad = \<lparr>v0 = Some blank_vertex, v1 = Some blank_vertex, v2 = Some blank_vertex,
                  v3 = Some blank_vertex, visible = False\<rparr>"

record mandelbrot =
  max_iter :: int
  x_min :: pyfloat
  x_max :: pyfloat
  y_min :: pyfloat
  y_max :: pyfloat
  height :: int
  width :: int
  colormap :: string
  rendered_vertices :: "vertex list"
  existing_vertices :: "vertex list"
  rendered_quads :: "quad list"
  existing_quads :: "quad list"
  dimensions_undo_list :: "dims list"
  dimensions_redo_list :: "dims list"
  loaded :: bool
  console :: "string list"

definition resolution_choices :: "resolution list" where
  "resolution_choices = [(30, 45), (60, 90), (120, 180), (180, 270), (240, 360), (480, 720)]"

definition pop :: "'a list \<Rightarrow> error + ('a \<times> 'a list)" where
  "pop xs = (if xs = [] then Inl IndexError else Inr (last xs, butlast xs))"

subsection \<open>Preallocation (lines 746-788) and recycling (lines 683-703)\<close>

fun load_fresh_loop :: "nat \<Rightarrow> mandelbrot \<Rightarrow> mandelbrot" where
  "load_fresh_loop 0 s = s"
| "load_fresh_loop (Suc i) s =
     load_fresh_loop i
       (let s1 = s\<lparr>existing_vertices := existing_vertices s @ [blank_vertex]\<rparr>
        in if int (length (existing_quads s1)) < (height s1 - 1) * width s1
           then s1\<lparr>existing_quads := existing_quads s1 @ [blank_quad]\<rparr>
           else s1)"

definition load_fresh_objects :: "int \<Rightarrow> mandelbrot \<Rightarrow> mandelbrot" where
  "load_fresh_objects fresh_load_size s = load_fresh_loop (nat fresh_load_size) s"

definition recycle_old_vertices :: "mandelbrot \<Rightarrow> mandelbrot" where
  "recycle_old_vertices s =
     s\<lparr>existing_vertices := existing_vertices s @ rendered_vertices s,
       existing_quads := existing_quads s @ map (\<lambda>q. q\<lparr>visible := False\<rparr>) (rendered_quads s),
       rendered_vertices := [],
       rendered_quads := []\<rparr>"

subsection \<open>Rendering (lines 562-639)\<close>

text \<open>
  The body of the inner loop for pixel \<open>(px, py)\<close>. The view is
  \<open>(center_x, center_y, zoom_x, zoom_y)\<close>; the loop carries the object and the
  current column buffer.
\<close>

definition render_pixel ::
  "pyfloat \<times> pyfloat \<times> pyfloat \<times> pyfloat \<Rightarrow> vertex option list \<Rightarrow> nat \<Rightarrow> nat \<Rightarrow>
   mandelbrot \<times> vertex option list \<Rightarrow> error + (mandelbrot \<times> vertex option list)" where
  "render_pixel view previous_col px py sc =
     (let (center_x, center_y, zoom_x, zoom_y) = view;
          (s, current_col) = sc;
          x = center_x + Num (real px - real_of_int (width s) / 2) * zoom_x;
          y = center_y + Num (real py - real_of_int (height s) / 2) * zoom_y;
          n = escape_time x y 0 0 0 (max_iter s)
      in case pixel_color n (max_iter s) (colormap s) of
           Inl e \<Rightarrow> Inl e
         | Inr c \<Rightarrow>
            if existing_vertices s = [] then Inl IndexError
            else
              let old_vertex = (last (existing_vertices s))
                     \<lparr>pos := vec (real px - real_of_int (width s) / 2)
                                 (real py - real_of_int (height s) / 2) 0,
                      color := c\<rparr>;
                  current_col' = current_col[py := Some old_vertex];
                  s1 = s\<lparr>existing_vertices := butlast (existing_vertices s),
                         rendered_vertices := rendered_vertices s @ [old_vertex]\<rparr>
              in if px > 0 \<and> py > 0 then
                   (if existing_quads s1 = [] then Inl IndexError
                    else
                      let pixel = (last (existing_quads s1))
                             \<lparr>v0 := current_col' ! py,
                              v1 := current_col' ! (py - 1),
                              v2 := previous_col ! (py - 1),
                              v3 := previous_col ! py,
                              visible := True\<rparr>
                      in Inr (s1\<lparr>existing_quads := butlast (existing_quads s1),
                                 rendered_quads := rendered_quads s1 @ [pixel]\<rparr>,
                              current_col'))
                 else Inr (s1, current_col'))"

fun render_rows ::
  "pyfloat \<times> pyfloat \<times> pyfloat \<times> pyfloat \<Rightarrow> vertex option list \<Rightarrow> nat \<Rightarrow> nat list \<Rightarrow>
   mandelbrot \<times> vertex option list \<Rightarrow> error + (mandelbrot \<times> vertex option list)" where
  "render_rows view previous_col px [] sc = Inr sc"
| "render_rows view previous_col px (py # pys) sc =
     (case render_pixel view previous_col px py sc of
        Inl e \<Rightarrow> Inl e
      | Inr sc' \<Rightarrow> render_rows view previous_col px pys sc')"

fun render_cols ::
  "pyfloat \<times> pyfloat \<times> pyfloat \<times> pyfloat \<Rightarrow> nat list \<Rightarrow>
   mandelbrot \<times> vertex option list \<times> vertex option list \<Rightarrow>
   error + (mandelbrot \<times> vertex option list \<times> vertex option list)" where
  "render_cols view [] scp = Inr scp"
| "render_cols view (px # pxs) scp =
     (let (s, current_col, previous_col) = scp
      in case render_rows view previous_col px [0..<nat (height s)] (s, current_col) of
           Inl e \<Rightarrow> Inl e
         | Inr (s', current_col') \<Rightarrow> render_cols view pxs (s', current_col', current_col'))"

definition load_new_mandelbrot :: "mandelbrot \<Rightarrow> error + mandelbrot" where
  "load_new_mandelbrot s0 =
     (let s = s0\<lparr>loaded := False\<rparr>;
          center_x = (x_min s + x_max s) / 2;
          center_y = (y_min s + y_max s) / 2;
          view_width = x_max s - x_min s;
          view_height = y_max s - y_min s
      in if width s = 0 \<or> height s = 0 then Inl ZeroDivisionError
         else
           let zoom_x = view_width / Num (real_of_int (width s));
               zoom_y = view_height / Num (real_of_int (height s));
               current_col = replicate (nat (height s)) None;
               previous_col = current_col
           in case render_cols (center_x, center_y, zoom_x, zoom_y) [0..<nat (width s)]
                     (s, current_col, previous_col) of
                Inl e \<Rightarrow> Inl e
              | Inr (s', _, _) \<Rightarrow> Inr (s'\<lparr>loaded := True\<rparr>))"

subsection \<open>Applying parameters (lines 641-681) and the constructor\<close>

definition change_parameters ::
  "int \<Rightarrow> dims \<Rightarrow> resolution \<Rightarrow> string \<Rightarrow> mandelbrot \<Rightarrow> error + mandelbrot" where
  "change_parameters max_iter' image_dimensions resolution' colormap' s =
     (let s1 = recycle_old_vertices (s\<lparr>loaded := False\<rparr>);
          (d0, d1, d2, d3) = image_dimensions;
          s2 = s1\<lparr>max_iter := max_iter',
                 x_min := d0, x_max := d1, y_min := d2, y_max := d3,
                 height := fst resolution', width := snd resolution',
                 colormap := colormap',
                 dimensions_undo_list := dimensions_undo_list s1 @ [image_dimensions]\<rparr>;
          previous_load_size = int (length (existing_vertices s2));
          fresh_load_size = height s2 * width s2 - previous_load_size
      in load_new_mandelbrot (load_fresh_objects fresh_load_size s2))"

definition Mandelbrot_init ::
  "int \<Rightarrow> dims \<Rightarrow> resolution \<Rightarrow> string \<Rightarrow> error + mandelbrot" where
  "Mandelbrot_init max_iter' image_dimensions resolution' colormap' =
     (let (d0, d1, d2, d3) = image_dimensions;
          s = \<lparr>max_iter = max_iter',
               x_min = d0, x_max = d1, y_min = d2, y_max = d3,
               height = fst resolution', width = snd resolution',
               colormap = colormap',
               rendered_vertices = [], existing_vertices = [],
               rendered_quads = [], existing_quads = [],
               dimensions_undo_list = [image_dimensions],
               dimensions_redo_list = [],
               loaded = False,
               console = []\<rparr>
      in load_new_mandelbrot (load_fresh_objects (height s * width s) s))"

subsection \<open>History navigation (lines 705-743, 301-352)\<close>

definition load_recent_dimensions ::
  "bool \<Rightarrow> int \<Rightarrow> resolution \<Rightarrow> string \<Rightarrow> mandelbrot \<Rightarrow> error + mandelbrot" where
  "load_recent_dimensions redo max_iter' resolution' colormap' s0 =
     (let s = s0\<lparr>loaded := False\<rparr>
      in if redo then
           (if length (dimensions_redo_list s) > 0 then
              (let image_dimensions_to_load = last (dimensions_redo_list s);
                   s1 = s\<lparr>dimensions_redo_list := butlast (dimensions_redo_list s)\<rparr>
               in change_parameters max_iter' image_dimensions_to_load resolution' colormap' s1)
            else Inr s)
         else
           (if length (dimensions_undo_list s) \<le> 1 then Inr s
            else
              (let s1 = s\<lparr>dimensions_redo_list :=
                            dimensions_redo_list s @ [last (dimensions_undo_list s)],
                          dimensions_undo_list := butlast (dimensions_undo_list s)\<rparr>;
                   image_dimensions_to_load = last (dimensions_undo_list s1);
                   s2 = s1\<lparr>dimensions_undo_list := butlast (dimensions_undo_list s1)\<rparr>
               in change_parameters max_iter' image_dimensions_to_load resolution' colormap' s2)))"

definition recall_mandelbrot_dimensions :: "bool \<Rightarrow> mandelbrot \<Rightarrow> error + mandelbrot" where
  "recall_mandelbrot_dimensions redo s =
     (if \<not> loaded s then Inr s
      else if length (dimensions_undo_list s) = 1 \<and> length (dimensions_redo_list s) = 0
      then Inr s
      else load_recent_dimensions redo (max_iter s) (height s, width s) (colormap s) s)"

subsection \<open>Settings handlers (lines 355-446)\<close>

definition change_resolution :: "nat \<Rightarrow> mandelbrot \<Rightarrow> error + mandelbrot" where
  "change_resolution index s =
     (if \<not> loaded s then Inr s
      else case pop (dimensions_undo_list s) of
             Inl e \<Rightarrow> Inl e
           | Inr (image_dimensions, rest) \<Rightarrow>
              if index \<ge> length resolution_choices then Inl IndexError
              else change_parameters (max_iter s) image_dimensions (resolution_choices ! index)
                     (colormap s) (s\<lparr>dimensions_undo_list := rest\<rparr>))"

definition change_colormap :: "string \<Rightarrow> mandelbrot \<Rightarrow> error + mandelbrot" where
  "change_colormap selected s =
     (if \<not> loaded s then Inr s
      else case pop (dimensions_undo_list s) of
             Inl e \<Rightarrow> Inl e
           | Inr (image_dimensions, rest) \<Rightarrow>
              change_parameters (max_iter s) image_dimensions (height s, width s) selected
                (s\<lparr>dimensions_undo_list := rest\<rparr>))"

text \<open>Python's \<^verbatim>\<open>int()\<close> of a float truncates toward zero.\<close>

definition py_int :: "real \<Rightarrow> int" where
  "py_int r = (if r \<ge> 0 then \<lfloor>r\<rfloor> else \<lceil>r\<rceil>)"

definition change_search_depth :: "real \<Rightarrow> mandelbrot \<Rightarrow> error + mandelbrot" where
  "change_search_depth number s =
     (if \<not> loaded s then Inr s
      else if number < 1 \<or> number > 1000
      then Inr (s\<lparr>console := console s @ [''Please enter a number between 1 - 1000'']\<rparr>)
      else
        let max_iter' = py_int number
        in case pop (dimensions_undo_list s) of
             Inl e \<Rightarrow> Inl e
           | Inr (image_dimensions, rest) \<Rightarrow>
              change_parameters max_iter' image_dimensions (height s, width s) (colormap s)
                (s\<lparr>dimensions_undo_list := rest\<rparr>))"

subsection \<open>Dimension text entry (lines 449-494)\<close>

text \<open>
  The builtin \<^verbatim>\<open>float\<close> is a parameter: \<open>None\<close> where it raises, \<open>Some NaN\<close> for a
  token such as \<^verbatim>\<open>nan\<close>. Any exception inside
  the \<^verbatim>\<open>try\<close> block ends in the same \<^verbatim>\<open>except\<close> branch.
\<close>

fun float_all :: "(string \<Rightarrow> pyfloat option) \<Rightarrow> string list \<Rightarrow> pyfloat list option" where
  "float_all float [] = Some []"
| "float_all float (item # items) =
     (case float item of
        None \<Rightarrow> None
      | Some r \<Rightarrow> (case float_all float items of None \<Rightarrow> None | Some rs \<Rightarrow> Some (r # rs)))"

definition parse_dimensions :: "(string \<Rightarrow> pyfloat option) \<Rightarrow> string \<Rightarrow> dims option" where
  "parse_dimensions float text =
     (case float_all float (split (Some text) '','') of
        None \<Rightarrow> None
      | Some split_elements \<Rightarrow>
          if length split_elements \<noteq> 4 then None
          else if split_elements ! 0 \<ge> split_elements ! 1 \<or> split_elements ! 2 \<ge> split_elements ! 3
          then None
          else Some (split_elements ! 0, split_elements ! 1, split_elements ! 2, split_elements ! 3))"

definition change_image_dimensions ::
  "(string \<Rightarrow> pyfloat option) \<Rightarrow> string \<Rightarrow> mandelbrot \<Rightarrow> error + mandelbrot" where
  "change_image_dimensions float text s =
     (if \<not> loaded s then Inr s
      else case parse_dimensions float text of
             None \<Rightarrow> Inr (s\<lparr>console := console s @ [''Invalid dimensions.'']\<rparr>)
           | Some split_elements \<Rightarrow>
              change_parameters (max_iter s) split_elements (height s, width s) (colormap s) s)"

subsection \<open>Drag selection (lines 168-281)\<close>

text \<open>
  The branch taken when the button is found released: from the start point and the last
  locked corner to the new bounds in the complex plane.
\<close>

definition resize_box_release :: "vec \<Rightarrow> vec \<Rightarrow> mandelbrot \<Rightarrow> error + mandelbrot" where
  "resize_box_release starting_mouse_pos opposite_corner_pos s =
     (let px_min = min (vx starting_mouse_pos) (vx opposite_corner_pos) + real_of_int (width s) / 2;
          px_max = max (vx starting_mouse_pos) (vx opposite_corner_pos) + real_of_int (width s) / 2;
          py_min = min (vy starting_mouse_pos) (vy opposite_corner_pos) + real_of_int (height s) / 2;
          py_max = max (vy starting_mouse_pos) (vy opposite_corner_pos) + real_of_int (height s) / 2;
          image_width = x_max s - x_min s;
          image_height = y_max s - y_min s
      in if width s = 0 \<or> height s = 0 then Inl ZeroDivisionError
         else
           change_parameters (max_iter s)
             ((image_width / Num (real_of_int (width s))) * Num px_min + x_min s,
              (image_width / Num (real_of_int (width s))) * Num px_max + x_min s,
              (image_height / Num (real_of_int (height s))) * Num py_min + y_min s,
              (image_height / Num (real_of_int (height s))) * Num py_max + y_min s)
             (height s, width s) (colormap s) s)"

text \<open>
  The polling loop over the pointer positions read while the button is held; the empty
  list is the pass that finds the button released.
\<close>

fun resize_box_loop :: "vec \<Rightarrow> vec \<Rightarrow> vec list \<Rightarrow> mandelbrot \<Rightarrow> error + mandelbrot" where
  "resize_box_loop starting_mouse_pos opposite_corner_pos [] s =
     resize_box_release starting_mouse_pos opposite_corner_pos s"
| "resize_box_loop starting_mouse_pos opposite_corner_pos (current_mouse_pos # samples) s =
     (case resize_box_sample starting_mouse_pos current_mouse_pos of
        Inl e \<Rightarrow> Inl e
      | Inr opposite_corner_pos' \<Rightarrow>
          resize_box_loop starting_mouse_pos opposite_corner_pos' samples s)"

definition resize_box :: "vec \<Rightarrow> vec list \<Rightarrow> mandelbrot \<Rightarrow> error + mandelbrot" where
  "resize_box starting_mouse_pos samples s =
     (if \<not> loaded s then Inr s
      else resize_box_loop starting_mouse_pos starting_mouse_pos samples s)"

subsection \<open>User events\<close>

datatype event =
    MouseDrag vec "vec list"
  | UndoClick
  | RedoClick
  | ResolutionMenu nat
  | ColormapMenu string
  | DepthInput real
  | DimensionsInput string

fun handle :: "(string \<Rightarrow> pyfloat option) \<Rightarrow> event \<Rightarrow> mandelbrot \<Rightarrow> error + mandelbrot" where
  "handle float (MouseDrag start samples) s = resize_box start samples s"
| "handle float UndoClick s = recall_mandelbrot_dimensions False s"
| "handle float RedoClick s = recall_mandelbrot_dimensions True s"
| "handle float (ResolutionMenu index) s = change_resolution index s"
| "handle float (ColormapMenu selected) s = change_colormap selected s"
| "handle float (DepthInput number) s = change_search_depth number s"
| "handle float (DimensionsInput text) s = change_image_dimensions float text s"

fun run :: "(string \<Rightarrow> pyfloat option) \<Rightarrow> event list \<Rightarrow> mandelbrot \<Rightarrow> error + mandelbrot" where
  "run float [] s = Inr s"
| "run float (ev # evs) s =
     (case handle float ev s of Inl e \<Rightarrow> Inl e | Inr s' \<Rightarrow> run float evs s')"

subsection \<open>Counts and invariants\<close>

definition total_vertices :: "mandelbrot \<Rightarrow> nat" where
  "total_vertices s = length (existing_vertices s) + length (rendered_vertices s)"

definition total_quads :: "mandelbrot \<Rightarrow> nat" where
  "total_quads s = length (existing_quads s) + length (rendered_quads s)"

definition viewport :: "mandelbrot \<Rightarrow> dims" where
  "viewport s = (x_min s, x_max s, y_min s, y_max s)"

text \<open>The fields that rendering and preallocation leave alone.\<close>
definition settings ::
  "mandelbrot \<Rightarrow> int \<times> dims \<times> int \<times> int \<times> string \<times> dims list \<times> dims list \<times> string list" where
  "settings s = (max_iter s, viewport s, height s, width s, colormap s,
                 dimensions_undo_list s, dimensions_redo_list s, console s)"

text \<open>How many quads the inner loop takes from the pool in column \<open>px\<close>.\<close>
definition quads_in_col :: "nat \<Rightarrow> nat list \<Rightarrow> nat" where
  "quads_in_col px pys = (if 0 < px then length (filter (\<lambda>py. 0 < py) pys) else 0)"

definition quads_in_cols :: "nat \<Rightarrow> nat list \<Rightarrow> nat" where
  "quads_in_cols h pxs = length (filter (\<lambda>px. 0 < px) pxs) * (h - 1)"

text \<open>The pool holds what preallocation for the grid \<open>r\<close> creates from nothing.\<close>
definition pool_sized :: "mandelbrot \<Rightarrow> resolution \<Rightarrow> bool" where
  "pool_sized s r = (int (total_vertices s) = fst r * snd r \<and>
                     int (total_quads s) = (fst r - 1) * snd r)"

text \<open>
  The object \<^const>\<open>change_parameters\<close> hands to \<^const>\<open>load_new_mandelbrot\<close>.
\<close>
definition staged :: "int \<Rightarrow> dims \<Rightarrow> resolution \<Rightarrow> string \<Rightarrow> mandelbrot \<Rightarrow> mandelbrot" where
  "staged max_iter' image_dimensions resolution' colormap' s =
     (let s1 = recycle_old_vertices (s\<lparr>loaded := False\<rparr>);
          s2 = s1\<lparr>max_iter := max_iter',
                 x_min := fst image_dimensions, x_max := fst (snd image_dimensions),
                 y_min := fst (snd (snd image_dimensions)),
                 y_max := snd (snd (snd image_dimensions)),
                 height := fst resolution', width := snd resolution',
                 colormap := colormap',
                 dimensions_undo_list := dimensions_undo_list s1 @ [image_dimensions]\<rparr>
      in load_fresh_loop
           (nat (fst resolution' * snd resolution' - int (length (existing_vertices s2)))) s2)"

text \<open>
  The call that both zoom handlers end with (lines 235-240 and 489-494): new bounds, every
  other setting as it is.
\<close>
definition zoom :: "dims \<Rightarrow> mandelbrot \<Rightarrow> error + mandelbrot" where
  "zoom image_dimensions s =
     change_parameters (max_iter s) image_dimensions (height s, width s) (colormap s) s"

text \<open>
  The states the handlers see: the grid is a preset, the pool was grown for the largest
  preset used so far, and the top of the undo list is the view on display.
\<close>
definition pool_inv :: "mandelbrot \<Rightarrow> bool" where
  "pool_inv s = ((height s, width s) \<in> set resolution_choices \<and>
     (\<exists>r \<in> set resolution_choices. height s \<le> fst r \<and> width s \<le> snd r \<and> pool_sized s r))"

definition history_inv :: "mandelbrot \<Rightarrow> bool" where
  "history_inv s = (dimensions_undo_list s \<noteq> [] \<and> last (dimensions_undo_list s) = viewport s)"

definition ready :: "mandelbrot \<Rightarrow> bool" where
  "ready s = (loaded s \<and> pool_inv s \<and> history_inv s)"

text \<open>The bounds that the release branch of the drag handler computes.\<close>
definition release_dimensions :: "vec \<Rightarrow> vec \<Rightarrow> mandelbrot \<Rightarrow> dims" where
  "release_dimensions starting_mouse_pos opposite_corner_pos s =
     (((x_max s - x_min s) / Num (real_of_int (width s))) *
         Num (min (vx starting_mouse_pos) (vx opposite_corner_pos) + real_of_int (width s) / 2) + x_min s,
      ((x_max s - x_min s) / Num (real_of_int (width s))) *
         Num (max (vx starting_mouse_pos) (vx opposite_corner_pos) + real_of_int (width s) / 2) + x_min s,
      ((y_max s - y_min s) / Num (real_of_int (height s))) *
         Num (min (vy starting_mouse_pos) (vy opposite_corner_pos) + real_of_int (height s) / 2) + y_min s,
      ((y_max s - y_min s) / Num (real_of_int (height s))) *
         Num (max (vy starting_mouse_pos) (vy opposite_corner_pos) + real_of_int (height s) / 2) + y_min s)"

text \<open>
  Concrete objects for the closed instances below: the object as start-up leaves it at
  resolution 180 x 270 (the contents of the geometry objects left blank), the same after
  one zoom, and after one zoom followed by one undo.
\<close>
definition example_state :: mandelbrot where
  "example_state =
     \<lparr>max_iter = 100, x_min = - 2, x_max = 1 / 2, y_min = - 1, y_max = 1,
      height = 180, width = 270, colormap = ''default'',
      rendered_vertices = replicate 48600 blank_vertex, existing_vertices = [],
      rendered_quads = replicate 48151 blank_quad, existing_quads = replicate 179 blank_quad,
      dimensions_undo_list = [(- 2, 1 / 2, - 1, 1)], dimensions_redo_list = [],
      loaded = True, console = []\<rparr>"

definition example_zoomed :: mandelbrot where
  "example_zoomed =
     example_state\<lparr>x_min := - 1, x_max := 0, y_min := 0, y_max := 4 / 5,
       dimensions_undo_list := [(- 2, 1 / 2, - 1, 1), (- 1, 0, 0, 4 / 5)]\<rparr>"

definition example_undone :: mandelbrot where
  "example_undone = example_state\<lparr>dimensions_redo_list := [(- 1, 0, 0, 4 / 5)]\<rparr>"

text \<open>
  The values of \<^verbatim>\<open>float\<close> on the four tokens of the text \<^verbatim>\<open>-2.5, 1.0, -1.25, 1.25\<close>
  (it ignores surrounding blanks); \<open>None\<close> elsewhere.
\<close>
definition float_scenario :: "string \<Rightarrow> pyfloat option" where
  "float_scenario item =
     (if item = ''-2.5'' then Some (- 2.5)
      else if item = '' 1.0'' then Some 1.0
      else if item = '' -1.25'' then Some (- 1.25)
      else if item = '' 1.25'' then Some 1.25
      else None)"

text \<open>
  The values of \<^verbatim>\<open>float\<close> on the tokens of the text \<^verbatim>\<open>nan, nan, nan, nan\<close>; \<open>None\<close>
  elsewhere.
\<close>
definition float_nan :: "string \<Rightarrow> pyfloat option" where
  "float_nan item = (if item = ''nan'' \<or> item = '' nan'' then Some NaN else None)"

text \<open>A one-pixel grid whose only pixel maps to the point \<open>0\<close> of the plane.\<close>
definition example_pixel_state :: mandelbrot where
  "example_pixel_state =
     \<lparr>max_iter = 2, x_min = 0, x_max = 1, y_min = 0, y_max = 1,
      height = 1, width = 1, colormap = ''spectral'',
      rendered_vertices = [], existing_vertices = [blank_vertex],
      rendered_quads = [], existing_quads = [],
      dimensions_undo_list = [(0, 1, 0, 1)], dimensions_redo_list = [],
      loaded = False, console = []\<rparr>"

section \<open>Properties\<close>

subsection \<open>Arithmetic and comparison of floats\<close>

lemma pyfloat_zero_one [simp]: "(0 :: pyfloat) = Num 0" "(1 :: pyfloat) = Num 1"
  by (simp_all add: zero_pyfloat_def one_pyfloat_def)

lemma pyfloat_arith [simp]:
  "Num x + Num y = Num (x + y)" "NaN + a = NaN" "a + NaN = NaN"
  "Num x - Num y = Num (x - y)" "NaN - a = NaN" "a - NaN = NaN"
  "Num x * Num y = Num (x * y)" "NaN * a = NaN" "a * NaN = NaN"
  "Num x / Num y = Num (x / y)" "NaN / a = NaN" "a / NaN = NaN"
  "- Num x = Num (- x)" "- NaN = NaN"
  by (simp_all add: plus_pyfloat_def minus_pyfloat_def times_pyfloat_def divide_pyfloat_def
      uminus_pyfloat_def split: pyfloat.splits)

lemma pyfloat_compare [simp]:
  "Num x \<le> Num y \<longleftrightarrow> x \<le> y" "\<not> NaN \<le> a" "\<not> a \<le> NaN"
  "Num x < Num y \<longleftrightarrow> x < y" "\<not> NaN < a" "\<not> a < NaN"
  by (simp_all add: less_eq_pyfloat_def less_pyfloat_def split: pyfloat.splits)

lemma pyfloat_numeral [simp]: "(numeral k :: pyfloat) = Num (numeral k)"
proof (induction k)
  case One
  show ?case by (simp only: numeral_One pyfloat_zero_one)
next
  case (Bit0 k)
  have "(numeral (Num.Bit0 k) :: pyfloat) = numeral k + numeral k" by (rule numeral_Bit0)
  also have "\<dots> = Num (numeral k + numeral k)" by (simp only: Bit0 pyfloat_arith)
  also have "numeral k + numeral k = (numeral (Num.Bit0 k) :: real)" by (rule numeral_Bit0 [symmetric])
  finally show ?case .
next
  case (Bit1 k)
  have "(numeral (Num.Bit1 k) :: pyfloat) = numeral k + numeral k + 1" by (rule numeral_Bit1)
  also have "\<dots> = Num (numeral k + numeral k + 1)"
    by (simp only: Bit1 pyfloat_arith pyfloat_zero_one)
  also have "numeral k + numeral k + 1 = (numeral (Num.Bit1 k) :: real)" by (rule numeral_Bit1 [symmetric])
  finally show ?case .
qed

lemma pyfloat_power [simp]: "Num x ^ n = Num (x ^ n)"
  by (induction n) simp_all

lemma py_sqrt_simps [simp]: "py_sqrt (Num x) = Num (sqrt x)" "py_sqrt NaN = NaN"
  by (simp_all add: py_sqrt_def)

lemma pyfloat_less_not_ge: "(a :: pyfloat) < b \<Longrightarrow> \<not> a \<ge> b"
  by (cases a; cases b) simp_all

subsection \<open>Escape-time count and pixel colour\<close>

lemma escape_time_ge: "n \<le> escape_time c_re c_im z_re z_im n m"
proof (induction c_re c_im z_re z_im n m rule: escape_time.induct)
  case (1 c_re c_im z_re z_im n m)
  show ?case
  proof (cases "py_sqrt (z_re ^ 2 + z_im ^ 2) \<le> 2 \<and> n < m")
    case True
    with "1" have "n + 1 \<le> escape_time c_re c_im (z_re * z_re - z_im * z_im + c_re) (2 * z_re * z_im + c_im) (n + 1) m"
      by simp
    with True show ?thesis by (subst escape_time.simps) simp
  next
    case False
    then show ?thesis by (subst escape_time.simps) auto
  qed
qed

lemma escape_time_le: "n \<le> m \<Longrightarrow> escape_time c_re c_im z_re z_im n m \<le> m"
proof (induction c_re c_im z_re z_im n m rule: escape_time.induct)
  case (1 c_re c_im z_re z_im n m)
  show ?case
  proof (cases "py_sqrt (z_re ^ 2 + z_im ^ 2) \<le> 2 \<and> n < m")
    case True
    with "1" have "escape_time c_re c_im (z_re * z_re - z_im * z_im + c_re) (2 * z_re * z_im + c_im) (n + 1) m \<le> m"
      by simp
    with True show ?thesis by (subst escape_time.simps) simp
  next
    case False
    with "1.prems" show ?thesis by (subst escape_time.simps) auto
  qed
qed

lemma escape_time_stuck: "m \<le> n \<Longrightarrow> escape_time c_re c_im z_re z_im n m = n"
  by (subst escape_time.simps) simp

lemma colormaps_nonneg:
  "0 \<le> vx c \<Longrightarrow> 0 \<le> vy c \<Longrightarrow> \<exists>r. colormaps c cmap = Inr r"
  by (simp add: colormaps_def)

lemma pixel_color_escape:
  "\<exists>c. pixel_color (escape_time x y 0 0 0 m) m cmap = Inr c"
proof -
  let ?n = "escape_time x y 0 0 0 m"
  have ge: "0 \<le> ?n" by (rule escape_time_ge)
  show ?thesis
  proof (cases "?n = m")
    case True
    then show ?thesis by (simp add: pixel_color_def)
  next
    case False
    have stuck: "m \<le> 0 \<Longrightarrow> ?n = 0" by (rule escape_time_stuck)
    from False stuck have m0: "m \<noteq> 0" by auto
    have "0 \<le> real_of_int ?n / real_of_int m"
    proof (cases "0 < m")
      case True
      with ge show ?thesis by simp
    next
      case False
      with stuck show ?thesis by simp
    qed
    then show ?thesis using \<open>?n \<noteq> m\<close> m0
      by (simp add: pixel_color_def Let_def colormaps_nonneg)
  qed
qed

lemma render_pixel_color:
  assumes "render_pixel (cx, cy, zx, zy) prev px py (s, cur) = Inr (s', cur')"
  shows "rendered_vertices s' \<noteq> [] \<and>
         pixel_color (escape_time (cx + Num (real px - real_of_int (width s) / 2) * zx)
                        (cy + Num (real py - real_of_int (height s) / 2) * zy) 0 0 0 (max_iter s))
            (max_iter s) (colormap s) = Inr (color (last (rendered_vertices s')))"
  using assms
  by (auto simp: render_pixel_def Let_def split: sum.splits if_splits)

subsection \<open>Rendering: what one pixel and one column take from the pool\<close>

lemma render_pixel_step:
  assumes "render_pixel view prev px py (s, cur) = Inr (s', cur')"
  shows "settings s' = settings s \<and> loaded s' = loaded s \<and>
         length (existing_vertices s') + 1 = length (existing_vertices s) \<and>
         length (rendered_vertices s') = length (rendered_vertices s) + 1 \<and>
         length (existing_quads s') + quads_in_col px [py] = length (existing_quads s) \<and>
         length (rendered_quads s') = length (rendered_quads s) + quads_in_col px [py]"
proof -
  obtain cx cy zx zy where v: "view = (cx, cy, zx, zy)" by (cases view) auto
  show ?thesis
    using assms unfolding v
    by (auto simp: render_pixel_def Let_def settings_def viewport_def quads_in_col_def
        split: sum.splits if_splits)
qed

lemma render_pixel_ok:
  assumes "existing_vertices s \<noteq> []" and "quads_in_col px [py] \<le> length (existing_quads s)"
  shows "\<exists>r. render_pixel view prev px py (s, cur) = Inr r"
proof -
  obtain cx cy zx zy where v: "view = (cx, cy, zx, zy)" by (cases view) auto
  obtain c where c: "pixel_color (escape_time (cx + Num (real px - real_of_int (width s) / 2) * zx)
                        (cy + Num (real py - real_of_int (height s) / 2) * zy) 0 0 0 (max_iter s))
            (max_iter s) (colormap s) = Inr c"
    using pixel_color_escape by blast
  show ?thesis
    using assms c unfolding v
    by (auto simp: render_pixel_def Let_def quads_in_col_def split: if_splits)
qed

lemma quads_in_col_Cons:
  "quads_in_col px (py # pys) = quads_in_col px [py] + quads_in_col px pys"
  by (simp add: quads_in_col_def)

lemma render_rows_step:
  "render_rows view prev px pys (s, cur) = Inr (s', cur') \<Longrightarrow>
     settings s' = settings s \<and> loaded s' = loaded s \<and>
     length (existing_vertices s') + length pys = length (existing_vertices s) \<and>
     length (rendered_vertices s') = length (rendered_vertices s) + length pys \<and>
     length (existing_quads s') + quads_in_col px pys = length (existing_quads s) \<and>
     length (rendered_quads s') = length (rendered_quads s) + quads_in_col px pys"
proof (induction pys arbitrary: s cur)
  case Nil
  then show ?case by (simp add: quads_in_col_def)
next
  case (Cons py pys)
  from Cons.prems obtain s1 cur1 where
    p: "render_pixel view prev px py (s, cur) = Inr (s1, cur1)" and
    r: "render_rows view prev px pys (s1, cur1) = Inr (s', cur')"
    by (auto split: sum.splits)
  from render_pixel_step [OF p] Cons.IH [OF r] show ?case
    by (simp add: quads_in_col_Cons [of px py pys])
qed

lemma render_rows_ok:
  "length pys \<le> length (existing_vertices s) \<Longrightarrow>
   quads_in_col px pys \<le> length (existing_quads s) \<Longrightarrow>
   \<exists>r. render_rows view prev px pys (s, cur) = Inr r"
proof (induction pys arbitrary: s cur)
  case Nil
  then show ?case by simp
next
  case (Cons py pys)
  have ne: "existing_vertices s \<noteq> []" using Cons.prems(1) by auto
  have q: "quads_in_col px [py] \<le> length (existing_quads s)"
    using Cons.prems(2) by (simp add: quads_in_col_Cons [of px py pys])
  from render_pixel_ok [OF ne q] obtain s1 cur1 where
    p: "render_pixel view prev px py (s, cur) = Inr (s1, cur1)" by fastforce
  note st = render_pixel_step [OF p]
  have "length pys \<le> length (existing_vertices s1)" using st Cons.prems(1) by simp
  moreover have "quads_in_col px pys \<le> length (existing_quads s1)"
    using st Cons.prems(2) by (simp add: quads_in_col_Cons [of px py pys])
  ultimately obtain r where "render_rows view prev px pys (s1, cur1) = Inr r"
    using Cons.IH by blast
  with p show ?case by simp
qed

lemma count_pos_upt: "length (filter (\<lambda>i. 0 < i) [0..<n]) = n - 1"
  by (induction n) auto

subsection \<open>Rendering: the whole grid\<close>

lemma quads_in_col_upt: "quads_in_col px [0..<h] = (if 0 < px then h - 1 else 0)"
  by (simp add: quads_in_col_def count_pos_upt)

lemma quads_in_cols_Cons:
  "quads_in_cols h (px # pxs) = quads_in_col px [0..<h] + quads_in_cols h pxs"
  by (simp add: quads_in_cols_def quads_in_col_upt)

lemma settings_height: "settings s' = settings s \<Longrightarrow> height s' = height s"
  by (simp add: settings_def)

lemma render_cols_step:
  "render_cols view pxs (s, cur, prev) = Inr (s', cur', prev') \<Longrightarrow>
     settings s' = settings s \<and> loaded s' = loaded s \<and>
     length (existing_vertices s') + length pxs * nat (height s) = length (existing_vertices s) \<and>
     length (rendered_vertices s') = length (rendered_vertices s) + length pxs * nat (height s) \<and>
     length (existing_quads s') + quads_in_cols (nat (height s)) pxs = length (existing_quads s) \<and>
     length (rendered_quads s') = length (rendered_quads s) + quads_in_cols (nat (height s)) pxs"
proof (induction pxs arbitrary: s cur prev)
  case Nil
  then show ?case by (simp add: quads_in_cols_def)
next
  case (Cons px pxs)
  from Cons.prems obtain s1 cur1 where
    r: "render_rows view prev px [0..<nat (height s)] (s, cur) = Inr (s1, cur1)" and
    c: "render_cols view pxs (s1, cur1, cur1) = Inr (s', cur', prev')"
    by (auto split: sum.splits)
  note a = render_rows_step [OF r]
  from a have h: "height s1 = height s" using settings_height by blast
  note b = Cons.IH [OF c, unfolded h]
  from a b show ?case
    by (simp add: quads_in_cols_Cons [of "nat (height s)" px pxs])
qed

lemma render_cols_ok:
  "length pxs * nat (height s) \<le> length (existing_vertices s) \<Longrightarrow>
   quads_in_cols (nat (height s)) pxs \<le> length (existing_quads s) \<Longrightarrow>
   \<exists>r. render_cols view pxs (s, cur, prev) = Inr r"
proof (induction pxs arbitrary: s cur prev)
  case Nil
  then show ?case by simp
next
  case (Cons px pxs)
  let ?h = "nat (height s)"
  have "length [0..<?h] \<le> length (existing_vertices s)" using Cons.prems(1) by simp
  moreover have "quads_in_col px [0..<?h] \<le> length (existing_quads s)"
    using Cons.prems(2) by (simp add: quads_in_cols_Cons [of ?h px pxs])
  ultimately obtain s1 cur1 where
    r: "render_rows view prev px [0..<?h] (s, cur) = Inr (s1, cur1)"
    using render_rows_ok by fastforce
  note a = render_rows_step [OF r]
  from a have h: "height s1 = height s" using settings_height by blast
  have "length pxs * nat (height s1) \<le> length (existing_vertices s1)"
    using a Cons.prems(1) unfolding h by simp
  moreover have "quads_in_cols (nat (height s1)) pxs \<le> length (existing_quads s1)"
    using a Cons.prems(2) unfolding h by (simp add: quads_in_cols_Cons [of ?h px pxs])
  ultimately obtain r' where "render_cols view pxs (s1, cur1, cur1) = Inr r'"
    using Cons.IH by blast
  with r show ?case by (cases r') simp
qed

lemma quads_in_cols_upt: "quads_in_cols h [0..<w] = (w - 1) * (h - 1)"
  by (simp add: quads_in_cols_def count_pos_upt)

lemma load_new_mandelbrot_step:
  assumes "load_new_mandelbrot s = Inr s'"
  shows "settings s' = settings s \<and> loaded s' \<and> width s \<noteq> 0 \<and> height s \<noteq> 0 \<and>
     length (existing_vertices s') + nat (width s) * nat (height s) = length (existing_vertices s) \<and>
     length (rendered_vertices s') = length (rendered_vertices s) + nat (width s) * nat (height s) \<and>
     length (existing_quads s') + (nat (width s) - 1) * (nat (height s) - 1) = length (existing_quads s) \<and>
     length (rendered_quads s') = length (rendered_quads s) + (nat (width s) - 1) * (nat (height s) - 1)"
proof -
  let ?s = "s\<lparr>loaded := False\<rparr>"
  from assms have nz: "width s \<noteq> 0 \<and> height s \<noteq> 0"
    by (auto simp: load_new_mandelbrot_def Let_def split: if_splits)
  with assms obtain view s1 cur1 prev1 where
    c: "render_cols view [0..<nat (width s)]
          (?s, replicate (nat (height s)) None, replicate (nat (height s)) None) = Inr (s1, cur1, prev1)"
    and s': "s' = s1\<lparr>loaded := True\<rparr>"
    by (auto simp: load_new_mandelbrot_def Let_def split: if_splits sum.splits)
  from render_cols_step [OF c] nz show ?thesis
    unfolding s' by (simp add: settings_def viewport_def quads_in_cols_upt)
qed

lemma load_new_mandelbrot_ok:
  assumes "width s \<noteq> 0" and "height s \<noteq> 0"
    and "nat (width s) * nat (height s) \<le> length (existing_vertices s)"
    and "(nat (width s) - 1) * (nat (height s) - 1) \<le> length (existing_quads s)"
  shows "\<exists>s'. load_new_mandelbrot s = Inr s'"
proof -
  let ?s = "s\<lparr>loaded := False\<rparr>"
  let ?view = "((x_min s + x_max s) / 2, (y_min s + y_max s) / 2,
                (x_max s - x_min s) / Num (real_of_int (width s)),
                (y_max s - y_min s) / Num (real_of_int (height s)))"
  have "length [0..<nat (width s)] * nat (height ?s) \<le> length (existing_vertices ?s)"
    using assms(3) by simp
  moreover have "quads_in_cols (nat (height ?s)) [0..<nat (width s)] \<le> length (existing_quads ?s)"
    using assms(4) by (simp add: quads_in_cols_upt)
  ultimately obtain r where
    "render_cols ?view [0..<nat (width s)]
        (?s, replicate (nat (height s)) None, replicate (nat (height s)) None) = Inr r"
    using render_cols_ok by blast
  then show ?thesis using assms(1,2)
    by (cases r) (simp add: load_new_mandelbrot_def Let_def)
qed

subsection \<open>Preallocation and recycling\<close>

lemma load_fresh_loop_step:
  "settings (load_fresh_loop k s) = settings s \<and>
   loaded (load_fresh_loop k s) = loaded s \<and>
   rendered_vertices (load_fresh_loop k s) = rendered_vertices s \<and>
   rendered_quads (load_fresh_loop k s) = rendered_quads s \<and>
   length (existing_vertices (load_fresh_loop k s)) = length (existing_vertices s) + k \<and>
   length (existing_quads s) \<le> length (existing_quads (load_fresh_loop k s)) \<and>
   (int (length (existing_quads s)) \<le> (height s - 1) * width s \<longrightarrow>
      int (length (existing_quads (load_fresh_loop k s))) =
        min (int (length (existing_quads s)) + int k) ((height s - 1) * width s)) \<and>
   ((height s - 1) * width s \<le> int (length (existing_quads s)) \<longrightarrow>
      length (existing_quads (load_fresh_loop k s)) = length (existing_quads s))"
proof (induction k arbitrary: s)
  case 0
  then show ?case by simp
next
  case (Suc k)
  let ?s1 = "s\<lparr>existing_vertices := existing_vertices s @ [blank_vertex]\<rparr>"
  show ?case
  proof (cases "int (length (existing_quads s)) < (height s - 1) * width s")
    case True
    let ?s2 = "?s1\<lparr>existing_quads := existing_quads ?s1 @ [blank_quad]\<rparr>"
    have eq: "load_fresh_loop (Suc k) s = load_fresh_loop k ?s2"
      using True by (simp add: Let_def)
    have st: "settings ?s2 = settings s" by (simp add: settings_def viewport_def)
    from Suc.IH [of ?s2] True show ?thesis unfolding eq st by simp
  next
    case False
    have eq: "load_fresh_loop (Suc k) s = load_fresh_loop k ?s1"
      using False by (simp add: Let_def)
    have st: "settings ?s1 = settings s" by (simp add: settings_def viewport_def)
    from Suc.IH [of ?s1] False show ?thesis unfolding eq st by simp
  qed
qed

lemma recycle_old_vertices_step:
  "settings (recycle_old_vertices s) = settings s \<and>
   loaded (recycle_old_vertices s) = loaded s \<and>
   rendered_vertices (recycle_old_vertices s) = [] \<and>
   rendered_quads (recycle_old_vertices s) = [] \<and>
   length (existing_vertices (recycle_old_vertices s)) = total_vertices s \<and>
   length (existing_quads (recycle_old_vertices s)) = total_quads s"
  by (simp add: recycle_old_vertices_def settings_def viewport_def total_vertices_def
      total_quads_def)

subsection \<open>Applying parameters\<close>

lemma change_parameters_staged:
  "change_parameters mi d res cm s = load_new_mandelbrot (staged mi d res cm s)"
  by (cases d) (simp add: change_parameters_def staged_def Let_def load_fresh_objects_def)

lemma staged_step:
  "max_iter (staged mi d res cm s) = mi \<and>
   viewport (staged mi d res cm s) = d \<and>
   height (staged mi d res cm s) = fst res \<and>
   width (staged mi d res cm s) = snd res \<and>
   colormap (staged mi d res cm s) = cm \<and>
   dimensions_undo_list (staged mi d res cm s) = dimensions_undo_list s @ [d] \<and>
   dimensions_redo_list (staged mi d res cm s) = dimensions_redo_list s \<and>
   console (staged mi d res cm s) = console s \<and>
   rendered_vertices (staged mi d res cm s) = [] \<and>
   rendered_quads (staged mi d res cm s) = [] \<and>
   length (existing_vertices (staged mi d res cm s)) =
     total_vertices s + nat (fst res * snd res - int (total_vertices s)) \<and>
   total_quads s \<le> length (existing_quads (staged mi d res cm s)) \<and>
   (int (total_quads s) \<le> (fst res - 1) * snd res \<longrightarrow>
      int (length (existing_quads (staged mi d res cm s))) =
        min (int (total_quads s) + int (nat (fst res * snd res - int (total_vertices s))))
            ((fst res - 1) * snd res)) \<and>
   ((fst res - 1) * snd res \<le> int (total_quads s) \<longrightarrow>
      length (existing_quads (staged mi d res cm s)) = total_quads s)"
proof -
  define s1 where "s1 = recycle_old_vertices (s\<lparr>loaded := False\<rparr>)"
  define s2 where "s2 = s1\<lparr>max_iter := mi,
                 x_min := fst d, x_max := fst (snd d),
                 y_min := fst (snd (snd d)),
                 y_max := snd (snd (snd d)),
                 height := fst res, width := snd res,
                 colormap := cm,
                 dimensions_undo_list := dimensions_undo_list s1 @ [d]\<rparr>"
  define k where "k = nat (fst res * snd res - int (length (existing_vertices s2)))"
  have st: "staged mi d res cm s = load_fresh_loop k s2"
    by (simp add: staged_def Let_def s1_def s2_def k_def)
  have r: "settings s1 = settings s \<and> rendered_vertices s1 = [] \<and> rendered_quads s1 = [] \<and>
           length (existing_vertices s1) = total_vertices s \<and>
           length (existing_quads s1) = total_quads s"
    using recycle_old_vertices_step [of "s\<lparr>loaded := False\<rparr>"]
    by (simp add: s1_def settings_def viewport_def total_vertices_def total_quads_def)
  have s2: "settings s2 = (mi, d, fst res, snd res, cm, dimensions_undo_list s @ [d],
                dimensions_redo_list s, console s) \<and>
            rendered_vertices s2 = [] \<and> rendered_quads s2 = [] \<and>
            length (existing_vertices s2) = total_vertices s \<and>
            length (existing_quads s2) = total_quads s \<and>
            height s2 = fst res \<and> width s2 = snd res"
    using r by (simp add: s2_def settings_def viewport_def)
  have k: "k = nat (fst res * snd res - int (total_vertices s))"
    using s2 by (simp add: k_def)
  note l = load_fresh_loop_step [of k s2]
  have set: "settings (load_fresh_loop k s2) = (mi, d, fst res, snd res, cm,
               dimensions_undo_list s @ [d], dimensions_redo_list s, console s)"
    using l s2 by simp
  show ?thesis
    unfolding st
    using l s2 set k by (simp add: settings_def)
qed

lemma change_parameters_step:
  assumes "change_parameters mi d res cm s = Inr s'"
  shows "max_iter s' = mi \<and> viewport s' = d \<and> height s' = fst res \<and> width s' = snd res \<and>
         colormap s' = cm \<and>
         dimensions_undo_list s' = dimensions_undo_list s @ [d] \<and>
         dimensions_redo_list s' = dimensions_redo_list s \<and>
         console s' = console s \<and> loaded s' \<and>
         length (rendered_vertices s') = nat (snd res) * nat (fst res) \<and>
         total_vertices s \<le> total_vertices s' \<and> total_quads s \<le> total_quads s' \<and>
         total_vertices s' = length (existing_vertices (staged mi d res cm s)) \<and>
         total_quads s' = length (existing_quads (staged mi d res cm s))"
proof -
  let ?t = "staged mi d res cm s"
  from assms have l: "load_new_mandelbrot ?t = Inr s'"
    by (simp add: change_parameters_staged)
  note a = load_new_mandelbrot_step [OF l]
  note b = staged_step [of mi d res cm s]
  from a have "settings s' = settings ?t" by simp
  then have set: "max_iter s' = max_iter ?t \<and> viewport s' = viewport ?t \<and>
      height s' = height ?t \<and> width s' = width ?t \<and> colormap s' = colormap ?t \<and>
      dimensions_undo_list s' = dimensions_undo_list ?t \<and>
      dimensions_redo_list s' = dimensions_redo_list ?t \<and> console s' = console ?t"
    by (simp add: settings_def)
  have tv: "total_vertices s' = length (existing_vertices ?t)"
    using a b by (simp add: total_vertices_def)
  have tq: "total_quads s' = length (existing_quads ?t)"
    using a b by (simp add: total_quads_def)
  have rv: "length (rendered_vertices s') = nat (snd res) * nat (fst res)"
    using a b by simp
  from set b a tv tq rv show ?thesis by simp
qed

lemma load_new_mandelbrot_ok_int:
  assumes "1 \<le> width s" and "1 \<le> height s"
    and "width s * height s \<le> int (length (existing_vertices s))"
    and "(width s - 1) * (height s - 1) \<le> int (length (existing_quads s))"
  shows "\<exists>s'. load_new_mandelbrot s = Inr s'"
proof (rule load_new_mandelbrot_ok)
  show "width s \<noteq> 0" "height s \<noteq> 0" using assms(1,2) by auto
  have "int (nat (width s) * nat (height s)) = width s * height s"
    using assms(1,2) by simp
  with assms(3) show "nat (width s) * nat (height s) \<le> length (existing_vertices s)"
    by linarith
  have "int ((nat (width s) - 1) * (nat (height s) - 1)) = (width s - 1) * (height s - 1)"
    using assms(1,2) by (simp add: of_nat_diff)
  with assms(4) show "(nat (width s) - 1) * (nat (height s) - 1) \<le> length (existing_quads s)"
    by linarith
qed

lemma preset_pos: "r \<in> set resolution_choices \<Longrightarrow> 1 \<le> fst r \<and> 1 \<le> snd r"
  by (auto simp: resolution_choices_def)

lemma preset_chain:
  "r \<in> set resolution_choices \<Longrightarrow> r' \<in> set resolution_choices \<Longrightarrow>
   (fst r \<le> fst r' \<and> snd r \<le> snd r') \<or> (fst r' \<le> fst r \<and> snd r' \<le> snd r)"
  by (auto simp: resolution_choices_def)

lemma smaller_grid_fits:
  fixes h w H W :: int
  assumes "1 \<le> h" "h \<le> H" "1 \<le> w" "w \<le> W"
  shows "h * w \<le> H * W \<and> (w - 1) * (h - 1) \<le> (H - 1) * W"
proof
  show "h * w \<le> H * W" using assms by (intro mult_mono) auto
  have "(w - 1) * (h - 1) \<le> W * (H - 1)" using assms by (intro mult_mono) auto
  then show "(w - 1) * (h - 1) \<le> (H - 1) * W" by (simp add: mult.commute)
qed

lemma change_parameters_ok:
  assumes r: "r \<in> set resolution_choices" and sized: "pool_sized s r"
    and res: "res \<in> set resolution_choices"
  shows "\<exists>s'. change_parameters mi d res cm s = Inr s' \<and>
           (\<exists>r' \<in> set resolution_choices.
               fst res \<le> fst r' \<and> snd res \<le> snd r' \<and> pool_sized s' r')"
proof -
  let ?t = "staged mi d res cm s"
  obtain h w where hw: "res = (h, w)" by (cases res)
  obtain H W where HW: "r = (H, W)" by (cases r)
  have pos: "1 \<le> h" "1 \<le> w" "1 \<le> H" "1 \<le> W"
    using preset_pos [OF r] preset_pos [OF res] by (simp_all add: hw HW)
  have V: "int (total_vertices s) = H * W" and Q: "int (total_quads s) = (H - 1) * W"
    using sized by (simp_all add: pool_sized_def HW)
  note b = staged_step [of mi d res cm s, unfolded hw fst_conv snd_conv]
  have hgt: "height ?t = h" and wid: "width ?t = w" using b by (simp_all add: hw)
  consider (A) "h \<le> H \<and> w \<le> W" | (B) "H \<le> h \<and> W \<le> w"
    using preset_chain [OF res r] by (auto simp: hw HW)
  then have "(\<exists>s'. load_new_mandelbrot ?t = Inr s') \<and>
      (\<exists>r' \<in> set resolution_choices. h \<le> fst r' \<and> w \<le> snd r' \<and>
          int (length (existing_vertices ?t)) = fst r' * snd r' \<and>
          int (length (existing_quads ?t)) = (fst r' - 1) * snd r')"
  proof cases
    case A
    from smaller_grid_fits [of h H w W] pos A
    have fit: "h * w \<le> H * W" "(w - 1) * (h - 1) \<le> (H - 1) * W" by simp_all
    have k0: "nat (h * w - int (total_vertices s)) = 0" using fit V by simp
    have ev: "int (length (existing_vertices ?t)) = H * W"
      using b k0 V by (simp add: hw)
    have eq: "int (length (existing_quads ?t)) = (H - 1) * W"
    proof (cases "int (total_quads s) \<le> (h - 1) * w")
      case True
      with b k0 have "int (length (existing_quads ?t)) = min (int (total_quads s)) ((h - 1) * w)"
        by (simp add: hw)
      with True Q show ?thesis by simp
    next
      case False
      with b have "length (existing_quads ?t) = total_quads s" by (simp add: hw)
      with Q show ?thesis by simp
    qed
    have ok: "\<exists>s'. load_new_mandelbrot ?t = Inr s'"
      by (rule load_new_mandelbrot_ok_int) (use pos fit ev eq hgt wid in \<open>simp_all add: mult.commute\<close>)
    have "\<exists>r' \<in> set resolution_choices. h \<le> fst r' \<and> w \<le> snd r' \<and>
          int (length (existing_vertices ?t)) = fst r' * snd r' \<and>
          int (length (existing_quads ?t)) = (fst r' - 1) * snd r'"
      by (rule bexI [of _ r]) (use ev eq A r in \<open>simp_all add: HW\<close>)
    with ok show ?thesis by blast
  next
    case B
    have fit: "H * W \<le> h * w" "(H - 1) * W \<le> (h - 1) * w"
      using B pos by (auto intro!: mult_mono)
    have k: "int (nat (h * w - int (total_vertices s))) = h * w - H * W"
      using fit V by simp
    have ev: "int (length (existing_vertices ?t)) = h * w"
      using b k V by (simp add: hw)
    have "int (length (existing_quads ?t)) = min ((H - 1) * W + (h * w - H * W)) ((h - 1) * w)"
      using b fit Q k by (simp add: hw)
    moreover have "(h - 1) * w \<le> (H - 1) * W + (h * w - H * W)"
      using B by (simp add: algebra_simps)
    ultimately have eq: "int (length (existing_quads ?t)) = (h - 1) * w" by simp
    have "(w - 1) * (h - 1) \<le> (h - 1) * w"
      using pos by (simp add: algebra_simps)
    with pos ev eq hgt wid have ok: "\<exists>s'. load_new_mandelbrot ?t = Inr s'"
      by (intro load_new_mandelbrot_ok_int) (simp_all add: mult.commute)
    have "\<exists>r' \<in> set resolution_choices. h \<le> fst r' \<and> w \<le> snd r' \<and>
          int (length (existing_vertices ?t)) = fst r' * snd r' \<and>
          int (length (existing_quads ?t)) = (fst r' - 1) * snd r'"
      by (rule bexI [of _ res]) (use ev eq res in \<open>simp_all add: hw\<close>)
    with ok show ?thesis by blast
  qed
  then obtain s' r' where l: "load_new_mandelbrot ?t = Inr s'"
    and r': "r' \<in> set resolution_choices" "h \<le> fst r'" "w \<le> snd r'"
      "int (length (existing_vertices ?t)) = fst r' * snd r'"
      "int (length (existing_quads ?t)) = (fst r' - 1) * snd r'"
    by blast
  from l have c: "change_parameters mi d res cm s = Inr s'"
    by (simp add: change_parameters_staged)
  from change_parameters_step [OF c] r' have "pool_sized s' r'"
    by (simp add: pool_sized_def)
  with c r' show ?thesis by (auto simp: hw)
qed

subsection \<open>Ready states are kept by every accepted change\<close>

lemma pool_sized_cong:
  "existing_vertices t = existing_vertices s \<Longrightarrow> rendered_vertices t = rendered_vertices s \<Longrightarrow>
   existing_quads t = existing_quads s \<Longrightarrow> rendered_quads t = rendered_quads s \<Longrightarrow>
   pool_sized t r = pool_sized s r"
  by (simp add: pool_sized_def total_vertices_def total_quads_def)

lemma apply_ok:
  assumes r: "r \<in> set resolution_choices" and sized: "pool_sized s r"
    and res: "res \<in> set resolution_choices"
  shows "\<exists>s'. change_parameters mi d res cm s = Inr s' \<and> ready s' \<and>
           max_iter s' = mi \<and> viewport s' = d \<and> height s' = fst res \<and> width s' = snd res \<and>
           colormap s' = cm \<and>
           dimensions_undo_list s' = dimensions_undo_list s @ [d] \<and>
           dimensions_redo_list s' = dimensions_redo_list s \<and>
           console s' = console s \<and>
           length (rendered_vertices s') = nat (snd res) * nat (fst res)"
proof -
  from change_parameters_ok [OF r sized res, of mi d cm] obtain s' r' where
    c: "change_parameters mi d res cm s = Inr s'" and
    r': "r' \<in> set resolution_choices" "fst res \<le> fst r'" "snd res \<le> snd r'" "pool_sized s' r'"
    by blast
  note st = change_parameters_step [OF c]
  have "pool_inv s'" unfolding pool_inv_def
  proof
    show "(height s', width s') \<in> set resolution_choices" using st res by simp
    show "\<exists>r\<in>set resolution_choices. height s' \<le> fst r \<and> width s' \<le> snd r \<and> pool_sized s' r"
      by (rule bexI [of _ r']) (use st r' in simp_all)
  qed
  moreover have "history_inv s'" using st by (simp add: history_inv_def)
  ultimately have "ready s'" using st by (simp add: ready_def)
  with c st show ?thesis by simp
qed

lemma ready_apply:
  assumes "pool_inv s"
    and pool: "existing_vertices t = existing_vertices s" "rendered_vertices t = rendered_vertices s"
      "existing_quads t = existing_quads s" "rendered_quads t = rendered_quads s"
    and res: "res \<in> set resolution_choices"
  shows "\<exists>s'. change_parameters mi d res cm t = Inr s' \<and> ready s' \<and>
           max_iter s' = mi \<and> viewport s' = d \<and> height s' = fst res \<and> width s' = snd res \<and>
           colormap s' = cm \<and>
           dimensions_undo_list s' = dimensions_undo_list t @ [d] \<and>
           dimensions_redo_list s' = dimensions_redo_list t \<and>
           console s' = console t \<and>
           length (rendered_vertices s') = nat (snd res) * nat (fst res)"
proof -
  from assms(1) obtain r where r: "r \<in> set resolution_choices" "pool_sized s r"
    by (auto simp: pool_inv_def)
  from r(2) have "pool_sized t r" using pool_sized_cong [OF pool] by simp
  from apply_ok [OF r(1) this res] show ?thesis .
qed

lemma ready_poolD: "ready s \<Longrightarrow> pool_inv s"
  by (simp add: ready_def)

lemma pool_inv_res: "pool_inv s \<Longrightarrow> (height s, width s) \<in> set resolution_choices"
  by (simp add: pool_inv_def)

lemma zoom_ok:
  assumes "ready s"
  shows "\<exists>s'. zoom d s = Inr s' \<and> ready s' \<and>
           max_iter s' = max_iter s \<and> viewport s' = d \<and> height s' = height s \<and>
           width s' = width s \<and> colormap s' = colormap s \<and>
           dimensions_undo_list s' = dimensions_undo_list s @ [d] \<and>
           dimensions_redo_list s' = dimensions_redo_list s \<and>
           console s' = console s \<and>
           length (rendered_vertices s') = nat (width s) * nat (height s)"
proof -
  have p: "pool_inv s" using assms by (rule ready_poolD)
  from ready_apply [OF p refl refl refl refl pool_inv_res [OF p],
      of "max_iter s" d "colormap s"]
  show ?thesis by (simp add: zoom_def)
qed

lemma change_image_dimensions_zoom:
  "loaded s \<Longrightarrow> parse_dimensions float text = Some d \<Longrightarrow>
   change_image_dimensions float text s = zoom d s"
  by (simp add: change_image_dimensions_def zoom_def)

lemma change_image_dimensions_reject:
  "loaded s \<Longrightarrow> parse_dimensions float text = None \<Longrightarrow>
   change_image_dimensions float text s = Inr (s\<lparr>console := console s @ [''Invalid dimensions.'']\<rparr>)"
  by (simp add: change_image_dimensions_def)

lemma resize_box_release_zoom:
  "width s \<noteq> 0 \<Longrightarrow> height s \<noteq> 0 \<Longrightarrow>
   resize_box_release start opp s = zoom (release_dimensions start opp s) s"
  by (simp add: resize_box_release_def zoom_def release_dimensions_def Let_def)

lemma resize_box_sample_ok:
  "vx cur \<noteq> vx start \<Longrightarrow> \<exists>opp. resize_box_sample start cur = Inr opp"
  by (simp add: resize_box_sample_def Let_def)

lemma resize_box_loop_zoom:
  assumes "width s \<noteq> 0" "height s \<noteq> 0"
  shows "\<forall>c \<in> set samples. vx c \<noteq> vx start \<Longrightarrow>
    \<exists>opp'. resize_box_loop start opp samples s = zoom (release_dimensions start opp' s) s"
proof (induction samples arbitrary: opp)
  case Nil
  then show ?case using assms by (auto simp: resize_box_release_zoom)
next
  case (Cons c samples)
  then obtain o1 where "resize_box_sample start c = Inr o1"
    using resize_box_sample_ok [of c start] by auto
  with Cons show ?case by simp
qed

subsection \<open>The escape-time count (C3)\<close>

lemma ready_example_state: "ready example_state"
  by (simp add: ready_def pool_inv_def pool_sized_def total_vertices_def total_quads_def
      history_inv_def viewport_def resolution_choices_def example_state_def)

lemma ready_example_zoomed: "ready example_zoomed"
  by (simp add: ready_def pool_inv_def pool_sized_def total_vertices_def total_quads_def
      history_inv_def viewport_def resolution_choices_def example_state_def example_zoomed_def)

lemma ready_example_undone: "ready example_undone"
  by (simp add: ready_def pool_inv_def pool_sized_def total_vertices_def total_quads_def
      history_inv_def viewport_def resolution_choices_def example_state_def example_undone_def)

text \<open>
  Claim C3. For the pixel \<open>(px, py)\<close> of a render whose iteration cap is not negative,
  the escape-time count \<open>n\<close> that the loop computes satisfies \<open>0 \<le> n \<le> max_iter\<close>,
  and when \<open>n = max_iter\<close> the vertex drawn for the pixel is exactly black, whatever
  colormap the object holds.
\<close>

theorem escape_count_bounded_interior_black:
  assumes "0 \<le> max_iter s"
    and "render_pixel (cx, cy, zx, zy) prev px py (s, cur) = Inr (s', cur')"
    and "n = escape_time (cx + Num (real px - real_of_int (width s) / 2) * zx)
                         (cy + Num (real py - real_of_int (height s) / 2) * zy) 0 0 0 (max_iter s)"
  shows "0 \<le> n \<and> n \<le> max_iter s \<and> rendered_vertices s' \<noteq> [] \<and>
         (n = max_iter s \<longrightarrow> color (last (rendered_vertices s')) = vec 0 0 0)"
proof -
  have "0 \<le> n" unfolding assms(3) by (rule escape_time_ge)
  moreover have "n \<le> max_iter s" unfolding assms(3) using assms(1) by (rule escape_time_le)
  moreover note c = render_pixel_color [OF assms(2)]
  moreover have "n = max_iter s \<Longrightarrow> color (last (rendered_vertices s')) = vec 0 0 0"
  proof -
    assume "n = max_iter s"
    then have "pixel_color n (max_iter s) (colormap s) = Inr (vec 0 0 0)"
      by (simp add: pixel_color_def)
    with c show ?thesis unfolding assms(3) by simp
  qed
  ultimately show ?thesis by blast
qed

lemma example_escape: "escape_time (Num 0) (Num 0) (Num 0) (Num 0) 0 2 = 2"
  by (simp add: escape_time.simps)

theorem escape_count_bounded_interior_black_witness:
  "0 \<le> max_iter example_pixel_state \<and>
   escape_time 0 0 0 0 0 (max_iter example_pixel_state) = max_iter example_pixel_state \<and>
   (\<exists>s' cur'. render_pixel (1 / 2, 1 / 2, 1, 1) [None] 0 0 (example_pixel_state, [None])
                  = Inr (s', cur') \<and>
      rendered_vertices s' \<noteq> [] \<and> color (last (rendered_vertices s')) = vec 0 0 0)"
proof -
  have m: "max_iter example_pixel_state = 2" "width example_pixel_state = 1"
    "height example_pixel_state = 1"
    by (simp_all add: example_pixel_state_def)
  obtain s' cur' where
    r: "render_pixel (1 / 2, 1 / 2, 1, 1) [None] 0 0 (example_pixel_state, [None]) = Inr (s', cur')"
    using render_pixel_ok [of example_pixel_state 0 0 "(1 / 2, 1 / 2, 1, 1)" "[None]" "[None]"]
    by (auto simp: example_pixel_state_def quads_in_col_def)
  have h: "0 \<le> max_iter example_pixel_state" by (simp add: m)
  from escape_count_bounded_interior_black [OF h r, of 2]
  have "rendered_vertices s' \<noteq> [] \<and> color (last (rendered_vertices s')) = vec 0 0 0"
    by (simp add: m example_escape)
  with r h show ?thesis by (auto simp: m example_escape)
qed

subsection \<open>Colormaps (C4)\<close>

text \<open>
  Claim C4. For every input with components in \<open>[0, 1]\<close>, \<^const>\<open>colormaps\<close> returns
  for each of the five scheme names the formula the specification gives for it, and for
  any other name the output of the default formula; it raises in none of these cases.
\<close>

theorem colormaps_match_spec_formulas:
  assumes "0 \<le> vx c" "vx c \<le> 1" "0 \<le> vy c" "vy c \<le> 1" "0 \<le> vz c" "vz c \<le> 1"
  shows "colormaps c ''default'' = Inr (spec_default c) \<and>
         colormaps c ''inferno'' = Inr (spec_inferno c) \<and>
         colormaps c ''viridis'' = Inr (spec_viridis c) \<and>
         colormaps c ''plasma'' = Inr (spec_plasma c) \<and>
         colormaps c ''spectral'' = Inr (spec_spectral c) \<and>
         (cmap \<notin> set colormap_choices \<longrightarrow> colormaps c cmap = Inr (spec_default c))"
proof -
  have "colormaps c ''default'' = Inr (spec_default c)"
    by (simp add: colormaps_def spec_default_def)
  moreover have "colormaps c ''inferno'' = Inr (spec_inferno c)"
    using assms(1) by (simp add: colormaps_def spec_inferno_def)
  moreover have "colormaps c ''viridis'' = Inr (spec_viridis c)"
    by (simp add: colormaps_def spec_viridis_def)
  moreover have "colormaps c ''plasma'' = Inr (spec_plasma c)"
    using assms(3) by (simp add: colormaps_def spec_plasma_def)
  moreover have "colormaps c ''spectral'' = Inr (spec_spectral c)"
    by (simp add: colormaps_def spec_spectral_def)
  moreover have "cmap \<notin> set colormap_choices \<Longrightarrow> colormaps c cmap = Inr (spec_default c)"
    by (simp add: colormaps_def spec_default_def colormap_choices_def)
  ultimately show ?thesis by blast
qed

theorem colormaps_match_spec_formulas_witness:
  "0 \<le> vx (vec (1 / 2) (1 / 4) 1) \<and> vx (vec (1 / 2) (1 / 4) 1) \<le> 1 \<and>
   0 \<le> vy (vec (1 / 2) (1 / 4) 1) \<and> vy (vec (1 / 2) (1 / 4) 1) \<le> 1 \<and>
   0 \<le> vz (vec (1 / 2) (1 / 4) 1) \<and> vz (vec (1 / 2) (1 / 4) 1) \<le> 1 \<and>
   ''jet'' \<notin> set colormap_choices \<and>
   colormaps (vec (1 / 2) (1 / 4) 1) ''inferno'' = Inr (spec_inferno (vec (1 / 2) (1 / 4) 1)) \<and>
   colormaps (vec (1 / 2) (1 / 4) 1) ''plasma'' = Inr (spec_plasma (vec (1 / 2) (1 / 4) 1)) \<and>
   colormaps (vec (1 / 2) (1 / 4) 1) ''jet'' = Inr (spec_default (vec (1 / 2) (1 / 4) 1))"
proof -
  have j: "''jet'' \<notin> set colormap_choices" by (simp add: colormap_choices_def)
  from colormaps_match_spec_formulas [of "vec (1 / 2) (1 / 4) 1" "''jet''"] j
  show ?thesis by simp
qed

subsection \<open>Aspect-ratio locking (C7, C10)\<close>

lemma sample_wide:
  assumes "\<bar>vx cur - vx start\<bar> \<noteq> 0"
    and "\<bar>vy cur - vy start\<bar> / \<bar>vx cur - vx start\<bar> > 3 / 2"
  shows "resize_box_sample start cur =
     Inr (vec (vx start + (if vx cur > vx start then 1 else - 1) * \<bar>vy cur - vy start\<bar> * 3 / 2)
              (vy cur) 0)"
  using assms unfolding resize_box_sample_def Let_def by simp

lemma sample_tall:
  assumes "\<bar>vx cur - vx start\<bar> \<noteq> 0"
    and "\<not> \<bar>vy cur - vy start\<bar> / \<bar>vx cur - vx start\<bar> > 3 / 2"
  shows "resize_box_sample start cur =
     Inr (vec (vx cur)
              (vy start + (if vy cur > vy start then 1 else - 1) * \<bar>vx cur - vx start\<bar> * 2 / 3) 0)"
  using assms unfolding resize_box_sample_def Let_def by simp

lemma scaled_sign_abs:
  fixes a :: real
  assumes "0 \<le> a"
  shows "\<bar>(if b then 1 else - 1) * a * 3 / 2\<bar> = a * 3 / 2"
    and "\<bar>(if b then 1 else - 1) * a * 2 / 3\<bar> = a * 2 / 3"
  using assms by (cases b; simp)+

text \<open>
  Claim C7, amended. For every pointer sample whose raw drag-box width is not zero, the
  locked box has height : width = 2 : 3 (width : height = 3 : 2), one of its two
  dimensions is the raw one, and the locked corner lies on the side of the start point
  towards which the pointer was dragged.
\<close>

theorem aspect_lock_width_to_height_three_to_two:
  assumes "vx cur \<noteq> vx start"
  shows "\<exists>opp. resize_box_sample start cur = Inr opp \<and>
           3 * \<bar>vy opp - vy start\<bar> = 2 * \<bar>vx opp - vx start\<bar> \<and>
           (vx opp = vx cur \<or> vy opp = vy cur) \<and>
           (vx start < vx cur \<longrightarrow> vx start < vx opp) \<and>
           (vx cur < vx start \<longrightarrow> vx opp < vx start) \<and>
           (vy start < vy cur \<longrightarrow> vy start < vy opp) \<and>
           (vy cur < vy start \<longrightarrow> vy opp < vy start)"
proof -
  define w where "w = \<bar>vx cur - vx start\<bar>"
  define h where "h = \<bar>vy cur - vy start\<bar>"
  have w: "0 < w" "w \<noteq> 0" using assms by (simp_all add: w_def)
  have h0: "0 \<le> h" by (simp add: h_def)
  show ?thesis
  proof (cases "h / w > 3 / 2")
    case True
    have h: "0 < h"
    proof (rule ccontr)
      assume "\<not> 0 < h"
      with h0 have "h = 0" by simp
      with True show False by simp
    qed
    define opp where
      "opp = vec (vx start + (if vx cur > vx start then 1 else - 1) * h * 3 / 2) (vy cur) 0"
    have r: "resize_box_sample start cur = Inr opp"
      using sample_wide [of cur start] w True unfolding w_def h_def opp_def by simp
    have dx: "vx opp - vx start = (if vx cur > vx start then 1 else - 1) * h * 3 / 2"
      by (simp add: opp_def)
    have ax: "\<bar>vx opp - vx start\<bar> = h * 3 / 2"
      unfolding dx using scaled_sign_abs(1) [OF h0] .
    have ay: "\<bar>vy opp - vy start\<bar> = h" by (simp add: opp_def h_def)
    have ratio: "3 * \<bar>vy opp - vy start\<bar> = 2 * \<bar>vx opp - vx start\<bar>"
      unfolding ax ay by simp
    have kept: "vy opp = vy cur" by (simp add: opp_def)
    have sx1: "vx start < vx cur \<longrightarrow> vx start < vx opp" using h by (simp add: opp_def)
    have sx2: "vx cur < vx start \<longrightarrow> vx opp < vx start" using h by (simp add: opp_def)
    have sy1: "vy start < vy cur \<longrightarrow> vy start < vy opp" by (simp add: kept)
    have sy2: "vy cur < vy start \<longrightarrow> vy opp < vy start" by (simp add: kept)
    have k: "vx opp = vx cur \<or> vy opp = vy cur" using kept by simp
    show ?thesis
      by (rule exI [of _ opp]) (intro conjI r ratio k sx1 sx2 sy1 sy2)
  next
    case False
    define opp where
      "opp = vec (vx cur) (vy start + (if vy cur > vy start then 1 else - 1) * w * 2 / 3) 0"
    have r: "resize_box_sample start cur = Inr opp"
      using sample_tall [of cur start] w False unfolding w_def h_def opp_def by simp
    have dy: "vy opp - vy start = (if vy cur > vy start then 1 else - 1) * w * 2 / 3"
      by (simp add: opp_def)
    have w0: "0 \<le> w" using w by simp
    have ay: "\<bar>vy opp - vy start\<bar> = w * 2 / 3"
      unfolding dy using scaled_sign_abs(2) [OF w0] .
    have ax: "\<bar>vx opp - vx start\<bar> = w" by (simp add: opp_def w_def)
    have ratio: "3 * \<bar>vy opp - vy start\<bar> = 2 * \<bar>vx opp - vx start\<bar>"
      unfolding ax ay by simp
    have kept: "vx opp = vx cur" by (simp add: opp_def)
    have sy1: "vy start < vy cur \<longrightarrow> vy start < vy opp" using w by (simp add: opp_def)
    have sy2: "vy cur < vy start \<longrightarrow> vy opp < vy start" using w by (simp add: opp_def)
    have sx1: "vx start < vx cur \<longrightarrow> vx start < vx opp" by (simp add: kept)
    have sx2: "vx cur < vx start \<longrightarrow> vx opp < vx start" by (simp add: kept)
    have k: "vx opp = vx cur \<or> vy opp = vy cur" using kept by simp
    show ?thesis
      by (rule exI [of _ opp]) (intro conjI r ratio k sx1 sx2 sy1 sy2)
  qed
qed

theorem aspect_lock_width_to_height_three_to_two_witness:
  "vx (vec 3 1 0) \<noteq> vx (vec 0 0 0) \<and>
   (\<exists>opp. resize_box_sample (vec 0 0 0) (vec 3 1 0) = Inr opp \<and>
      3 * \<bar>vy opp - vy (vec 0 0 0)\<bar> = 2 * \<bar>vx opp - vx (vec 0 0 0)\<bar> \<and>
      vx (vec 0 0 0) < vx opp \<and> vy (vec 0 0 0) < vy opp)"
proof -
  have h: "vx (vec 3 1 0) \<noteq> vx (vec 0 0 0)" by simp
  from aspect_lock_width_to_height_three_to_two [OF h] obtain opp where
    o: "resize_box_sample (vec 0 0 0) (vec 3 1 0) = Inr opp"
      "3 * \<bar>vy opp - vy (vec 0 0 0)\<bar> = 2 * \<bar>vx opp - vx (vec 0 0 0)\<bar>"
      "vx (vec 0 0 0) < vx (vec 3 1 0) \<longrightarrow> vx (vec 0 0 0) < vx opp"
      "vy (vec 0 0 0) < vy (vec 3 1 0) \<longrightarrow> vy (vec 0 0 0) < vy opp"
    by blast
  from o(3) have x: "vx (vec 0 0 0) < vx opp" by simp
  from o(4) have y: "vy (vec 0 0 0) < vy opp" by simp
  from h o(1,2) x y show ?thesis by blast
qed

text \<open>
  Claim C7 as stated fails: dragging from \<open>(0, 0)\<close> to \<open>(3, 1)\<close> gives the locked corner
  \<open>(3, 2)\<close>, a box whose height : width is \<open>2 : 3\<close>, not \<open>3 : 2\<close>.
\<close>

theorem aspect_lock_not_height_to_width_three_to_two:
  "resize_box_sample (vec 0 0 0) (vec 3 1 0) = Inr (vec 3 2 0) \<and>
   \<bar>vy (vec 3 2 0) - vy (vec 0 0 0)\<bar> / \<bar>vx (vec 3 2 0) - vx (vec 0 0 0)\<bar> \<noteq> 3 / 2"
  by (simp add: resize_box_sample_def Let_def)

lemma example_state_fields:
  "loaded example_state" "width example_state = 270" "height example_state = 180"
  "max_iter example_state = 100" "colormap example_state = ''default''"
  "dimensions_undo_list example_state = [(- 2, 1 / 2, - 1, 1)]"
  "dimensions_redo_list example_state = []"
  "viewport example_state = (- 2, 1 / 2, - 1, 1)"
  "console example_state = []"
  unfolding example_state_def viewport_def by simp_all

text \<open>
  Claim C10 fails on the code: when the pointer has the same x-coordinate as the start
  point (a vertical drag, or a pointer that has not moved), the ratio test divides by a
  zero width and the handler ends with \<^verbatim>\<open>ZeroDivisionError\<close>.
\<close>

theorem aspect_lock_divides_by_zero_width:
  "resize_box_sample (vec 0 0 0) (vec 0 5 0) = Inl ZeroDivisionError \<and>
   resize_box_sample (vec 0 0 0) (vec 0 0 0) = Inl ZeroDivisionError \<and>
   resize_box (vec 0 0 0) [vec 0 5 0] example_state = Inl ZeroDivisionError"
proof -
  have a: "resize_box_sample (vec 0 0 0) (vec 0 5 0) = Inl ZeroDivisionError"
    by (simp add: resize_box_sample_def Let_def)
  have b: "resize_box_sample (vec 0 0 0) (vec 0 0 0) = Inl ZeroDivisionError"
    by (simp add: resize_box_sample_def Let_def)
  have c: "resize_box (vec 0 0 0) [vec 0 5 0] example_state = Inl ZeroDivisionError"
    by (simp add: resize_box_def a example_state_fields)
  from a b c show ?thesis by simp
qed

subsection \<open>Exhausted history (C5)\<close>

lemma example_zoomed_fields:
  "loaded example_zoomed" "width example_zoomed = 270" "height example_zoomed = 180"
  "max_iter example_zoomed = 100" "colormap example_zoomed = ''default''"
  "dimensions_undo_list example_zoomed = [(- 2, 1 / 2, - 1, 1), (- 1, 0, 0, 4 / 5)]"
  "dimensions_redo_list example_zoomed = []"
  "viewport example_zoomed = (- 1, 0, 0, 4 / 5)"
  "console example_zoomed = []"
  unfolding example_zoomed_def example_state_def viewport_def by simp_all

lemma example_undone_fields:
  "loaded example_undone" "width example_undone = 270" "height example_undone = 180"
  "max_iter example_undone = 100" "colormap example_undone = ''default''"
  "dimensions_undo_list example_undone = [(- 2, 1 / 2, - 1, 1)]"
  "dimensions_redo_list example_undone = [(- 1, 0, 0, 4 / 5)]"
  "viewport example_undone = (- 2, 1 / 2, - 1, 1)"
  "console example_undone = []"
  unfolding example_undone_def example_state_def viewport_def by simp_all

lemma handle_busy: "\<not> loaded s \<Longrightarrow> handle float ev s = Inr s"
  by (cases ev)
    (simp_all add: resize_box_def recall_mandelbrot_dimensions_def change_resolution_def
      change_colormap_def change_search_depth_def change_image_dimensions_def)

text \<open>
  Claim C5 fails on the code: with two entries on the undo list and an empty redo list, a
  click on Redo passes the guard of the callback, \<^const>\<open>load_recent_dimensions\<close> clears
  \<open>loaded\<close> and returns without rendering, and from then on every handler returns at
  its first test.
\<close>

theorem redo_on_empty_stack_leaves_busy:
  "loaded example_zoomed \<and> dimensions_redo_list example_zoomed = [] \<and>
   recall_mandelbrot_dimensions True example_zoomed = Inr (example_zoomed\<lparr>loaded := False\<rparr>) \<and>
   handle float ev (example_zoomed\<lparr>loaded := False\<rparr>) = Inr (example_zoomed\<lparr>loaded := False\<rparr>)"
proof -
  have a: "recall_mandelbrot_dimensions True example_zoomed = Inr (example_zoomed\<lparr>loaded := False\<rparr>)"
    by (simp add: recall_mandelbrot_dimensions_def load_recent_dimensions_def Let_def
        example_zoomed_fields)
  have b: "handle float ev (example_zoomed\<lparr>loaded := False\<rparr>) = Inr (example_zoomed\<lparr>loaded := False\<rparr>)"
    by (rule handle_busy) simp
  from a b show ?thesis by (simp add: example_zoomed_fields)
qed

subsection \<open>Handlers from a ready state\<close>

lemma ready_loaded: "ready s \<Longrightarrow> loaded s"
  by (simp add: ready_def)

lemma ready_history: "ready s \<Longrightarrow> dimensions_undo_list s \<noteq> [] \<and> last (dimensions_undo_list s) = viewport s"
  by (simp add: ready_def history_inv_def)

lemma ready_grid: "ready s \<Longrightarrow> 1 \<le> height s \<and> 1 \<le> width s"
  using preset_pos [OF pool_inv_res [OF ready_poolD]] by simp

lemma change_image_dimensions_ok:
  assumes "ready s" and "parse_dimensions float text = Some d"
  shows "\<exists>s'. change_image_dimensions float text s = Inr s' \<and> ready s' \<and>
           max_iter s' = max_iter s \<and> viewport s' = d \<and> height s' = height s \<and>
           width s' = width s \<and> colormap s' = colormap s \<and>
           dimensions_undo_list s' = dimensions_undo_list s @ [d] \<and>
           dimensions_redo_list s' = dimensions_redo_list s \<and>
           console s' = console s \<and>
           length (rendered_vertices s') = nat (width s) * nat (height s)"
  using zoom_ok [OF assms(1), of d]
    change_image_dimensions_zoom [OF ready_loaded [OF assms(1)] assms(2)]
  by simp

lemma resize_box_ok:
  assumes "ready s" and "\<forall>c \<in> set samples. vx c \<noteq> vx start"
  shows "\<exists>s'. resize_box start samples s = Inr s' \<and> ready s' \<and>
           max_iter s' = max_iter s \<and> height s' = height s \<and>
           width s' = width s \<and> colormap s' = colormap s \<and>
           dimensions_undo_list s' = dimensions_undo_list s @ [viewport s'] \<and>
           dimensions_redo_list s' = dimensions_redo_list s \<and>
           console s' = console s"
proof -
  from ready_grid [OF assms(1)] have nz: "width s \<noteq> 0" "height s \<noteq> 0" by auto
  from resize_box_loop_zoom [OF nz assms(2), of start] obtain opp' where
    l: "resize_box_loop start start samples s = zoom (release_dimensions start opp' s) s"
    by blast
  from zoom_ok [OF assms(1), of "release_dimensions start opp' s"] obtain s' where
    z: "zoom (release_dimensions start opp' s) s = Inr s'" "ready s'"
      "max_iter s' = max_iter s" "viewport s' = release_dimensions start opp' s"
      "height s' = height s" "width s' = width s" "colormap s' = colormap s"
      "dimensions_undo_list s' = dimensions_undo_list s @ [release_dimensions start opp' s]"
      "dimensions_redo_list s' = dimensions_redo_list s" "console s' = console s"
    by blast
  have "resize_box start samples s = Inr s'"
    using l z(1) ready_loaded [OF assms(1)] by (simp add: resize_box_def)
  with z show ?thesis by simp
qed

lemma repush_ok:
  assumes "ready s" and res: "res \<in> set resolution_choices"
  shows "\<exists>s'. change_parameters mi (last (dimensions_undo_list s)) res cm
                 (s\<lparr>dimensions_undo_list := butlast (dimensions_undo_list s)\<rparr>) = Inr s' \<and>
           ready s' \<and> max_iter s' = mi \<and> viewport s' = viewport s \<and>
           height s' = fst res \<and> width s' = snd res \<and> colormap s' = cm \<and>
           dimensions_undo_list s' = dimensions_undo_list s \<and>
           dimensions_redo_list s' = dimensions_redo_list s \<and>
           console s' = console s \<and>
           length (rendered_vertices s') = nat (snd res) * nat (fst res)"
proof -
  let ?t = "s\<lparr>dimensions_undo_list := butlast (dimensions_undo_list s)\<rparr>"
  note h = ready_history [OF assms(1)]
  from ready_apply [OF ready_poolD [OF assms(1)], of ?t res mi "last (dimensions_undo_list s)" cm] res
  obtain s' where
    z: "change_parameters mi (last (dimensions_undo_list s)) res cm ?t = Inr s'" "ready s'"
      "max_iter s' = mi" "viewport s' = last (dimensions_undo_list s)"
      "height s' = fst res" "width s' = snd res" "colormap s' = cm"
      "dimensions_undo_list s' = dimensions_undo_list ?t @ [last (dimensions_undo_list s)]"
      "dimensions_redo_list s' = dimensions_redo_list ?t" "console s' = console ?t"
      "length (rendered_vertices s') = nat (snd res) * nat (fst res)"
    by auto
  have "butlast (dimensions_undo_list s) @ [last (dimensions_undo_list s)] = dimensions_undo_list s"
    using h by (intro append_butlast_last_id) simp
  then have "dimensions_undo_list s' = dimensions_undo_list s" using z(8) by simp
  with z(1-7,9-11) h show ?thesis by simp
qed

lemma pop_last: "xs \<noteq> [] \<Longrightarrow> pop xs = Inr (last xs, butlast xs)"
  by (simp add: pop_def)

lemma change_search_depth_ok:
  assumes "ready s" and "1 \<le> number" "number \<le> 1000"
  shows "\<exists>s'. change_search_depth number s = Inr s' \<and> ready s' \<and>
           max_iter s' = py_int number \<and> viewport s' = viewport s \<and>
           height s' = height s \<and> width s' = width s \<and> colormap s' = colormap s \<and>
           dimensions_undo_list s' = dimensions_undo_list s \<and>
           dimensions_redo_list s' = dimensions_redo_list s \<and>
           console s' = console s \<and>
           length (rendered_vertices s') = nat (width s) * nat (height s)"
proof -
  note h = ready_history [OF assms(1)]
  have "change_search_depth number s =
      change_parameters (py_int number) (last (dimensions_undo_list s)) (height s, width s)
        (colormap s) (s\<lparr>dimensions_undo_list := butlast (dimensions_undo_list s)\<rparr>)"
    using ready_loaded [OF assms(1)] assms(2,3) h
    by (simp add: change_search_depth_def pop_last Let_def)
  with repush_ok [OF assms(1) pool_inv_res [OF ready_poolD [OF assms(1)]],
      of "py_int number" "colormap s"]
  show ?thesis by simp
qed

lemma change_colormap_ok:
  assumes "ready s"
  shows "\<exists>s'. change_colormap selected s = Inr s' \<and> ready s' \<and>
           max_iter s' = max_iter s \<and> viewport s' = viewport s \<and>
           height s' = height s \<and> width s' = width s \<and> colormap s' = selected \<and>
           dimensions_undo_list s' = dimensions_undo_list s \<and>
           dimensions_redo_list s' = dimensions_redo_list s \<and>
           console s' = console s \<and>
           length (rendered_vertices s') = nat (width s) * nat (height s)"
proof -
  note h = ready_history [OF assms(1)]
  have "change_colormap selected s =
      change_parameters (max_iter s) (last (dimensions_undo_list s)) (height s, width s)
        selected (s\<lparr>dimensions_undo_list := butlast (dimensions_undo_list s)\<rparr>)"
    using ready_loaded [OF assms(1)] h
    by (simp add: change_colormap_def pop_last)
  with repush_ok [OF assms(1) pool_inv_res [OF ready_poolD [OF assms(1)]],
      of "max_iter s" selected]
  show ?thesis by simp
qed

lemma change_resolution_ok:
  assumes "ready s" and "index < length resolution_choices"
  shows "\<exists>s'. change_resolution index s = Inr s' \<and> ready s' \<and>
           max_iter s' = max_iter s \<and> viewport s' = viewport s \<and>
           height s' = fst (resolution_choices ! index) \<and>
           width s' = snd (resolution_choices ! index) \<and> colormap s' = colormap s \<and>
           dimensions_undo_list s' = dimensions_undo_list s \<and>
           dimensions_redo_list s' = dimensions_redo_list s \<and>
           console s' = console s \<and>
           length (rendered_vertices s') =
             nat (snd (resolution_choices ! index)) * nat (fst (resolution_choices ! index))"
proof -
  note h = ready_history [OF assms(1)]
  have res: "resolution_choices ! index \<in> set resolution_choices"
    using assms(2) by simp
  have "change_resolution index s =
      change_parameters (max_iter s) (last (dimensions_undo_list s)) (resolution_choices ! index)
        (colormap s) (s\<lparr>dimensions_undo_list := butlast (dimensions_undo_list s)\<rparr>)"
    using ready_loaded [OF assms(1)] h assms(2)
    by (simp add: change_resolution_def pop_last)
  with repush_ok [OF assms(1) res, of "max_iter s" "colormap s"]
  show ?thesis by simp
qed

subsection \<open>Undo and redo\<close>

lemma undo_ok:
  assumes "ready s" and "2 \<le> length (dimensions_undo_list s)"
  shows "\<exists>s'. recall_mandelbrot_dimensions False s = Inr s' \<and> ready s' \<and>
           max_iter s' = max_iter s \<and> height s' = height s \<and> width s' = width s \<and>
           colormap s' = colormap s \<and>
           viewport s' = last (butlast (dimensions_undo_list s)) \<and>
           dimensions_undo_list s' = butlast (dimensions_undo_list s) \<and>
           dimensions_redo_list s' = dimensions_redo_list s @ [last (dimensions_undo_list s)] \<and>
           console s' = console s"
proof -
  let ?u = "dimensions_undo_list s"
  let ?t = "s\<lparr>loaded := False,
              dimensions_redo_list := dimensions_redo_list s @ [last ?u],
              dimensions_undo_list := butlast (butlast ?u)\<rparr>"
  have len: "\<not> length ?u \<le> 1" "\<not> (length ?u = 1 \<and> length (dimensions_redo_list s) = 0)"
    using assms(2) by auto
  have ne: "butlast ?u \<noteq> []"
    using assms(2) by (cases ?u rule: rev_cases) auto
  have eq: "recall_mandelbrot_dimensions False s =
      change_parameters (max_iter s) (last (butlast ?u)) (height s, width s) (colormap s) ?t"
    using ready_loaded [OF assms(1)] len
    by (simp add: recall_mandelbrot_dimensions_def load_recent_dimensions_def Let_def)
  from ready_apply [OF ready_poolD [OF assms(1)], of ?t "(height s, width s)" "max_iter s"
      "last (butlast ?u)" "colormap s"] pool_inv_res [OF ready_poolD [OF assms(1)]]
  obtain s' where
    z: "change_parameters (max_iter s) (last (butlast ?u)) (height s, width s) (colormap s) ?t = Inr s'"
      "ready s'" "max_iter s' = max_iter s" "viewport s' = last (butlast ?u)"
      "height s' = height s" "width s' = width s" "colormap s' = colormap s"
      "dimensions_undo_list s' = butlast (butlast ?u) @ [last (butlast ?u)]"
      "dimensions_redo_list s' = dimensions_redo_list s @ [last ?u]" "console s' = console s"
    by auto
  have "butlast (butlast ?u) @ [last (butlast ?u)] = butlast ?u"
    using ne by (rule append_butlast_last_id)
  with z(8) have "dimensions_undo_list s' = butlast ?u" by simp
  with z(1-7,9,10) eq show ?thesis by simp
qed

lemma redo_ok:
  assumes "ready s" and "dimensions_redo_list s \<noteq> []"
  shows "\<exists>s'. recall_mandelbrot_dimensions True s = Inr s' \<and> ready s' \<and>
           max_iter s' = max_iter s \<and> height s' = height s \<and> width s' = width s \<and>
           colormap s' = colormap s \<and>
           viewport s' = last (dimensions_redo_list s) \<and>
           dimensions_undo_list s' = dimensions_undo_list s @ [last (dimensions_redo_list s)] \<and>
           dimensions_redo_list s' = butlast (dimensions_redo_list s) \<and>
           console s' = console s"
proof -
  let ?r = "dimensions_redo_list s"
  let ?t = "s\<lparr>loaded := False, dimensions_redo_list := butlast ?r\<rparr>"
  have eq: "recall_mandelbrot_dimensions True s =
      change_parameters (max_iter s) (last ?r) (height s, width s) (colormap s) ?t"
    using ready_loaded [OF assms(1)] assms(2)
    by (simp add: recall_mandelbrot_dimensions_def load_recent_dimensions_def Let_def)
  from ready_apply [OF ready_poolD [OF assms(1)], of ?t "(height s, width s)" "max_iter s"
      "last ?r" "colormap s"] pool_inv_res [OF ready_poolD [OF assms(1)]]
  obtain s' where
    z: "change_parameters (max_iter s) (last ?r) (height s, width s) (colormap s) ?t = Inr s'"
      "ready s'" "max_iter s' = max_iter s" "viewport s' = last ?r"
      "height s' = height s" "width s' = width s" "colormap s' = colormap s"
      "dimensions_undo_list s' = dimensions_undo_list s @ [last ?r]"
      "dimensions_redo_list s' = butlast ?r" "console s' = console s"
    by auto
  with eq show ?thesis by simp
qed

lemma undo_redo_roundtrip:
  assumes "ready s" and "2 \<le> length (dimensions_undo_list s)"
  shows "\<exists>s1 s2. recall_mandelbrot_dimensions False s = Inr s1 \<and>
           recall_mandelbrot_dimensions True s1 = Inr s2 \<and> ready s2 \<and>
           viewport s2 = viewport s \<and>
           dimensions_undo_list s2 = dimensions_undo_list s \<and>
           dimensions_redo_list s2 = dimensions_redo_list s"
proof -
  let ?u = "dimensions_undo_list s"
  from undo_ok [OF assms] obtain s1 where
    u: "recall_mandelbrot_dimensions False s = Inr s1" "ready s1"
      "dimensions_undo_list s1 = butlast ?u"
      "dimensions_redo_list s1 = dimensions_redo_list s @ [last ?u]"
    by blast
  have ne: "dimensions_redo_list s1 \<noteq> []" using u(4) by simp
  from redo_ok [OF u(2) ne] obtain s2 where
    r: "recall_mandelbrot_dimensions True s1 = Inr s2" "ready s2"
      "viewport s2 = last (dimensions_redo_list s1)"
      "dimensions_undo_list s2 = dimensions_undo_list s1 @ [last (dimensions_redo_list s1)]"
      "dimensions_redo_list s2 = butlast (dimensions_redo_list s1)"
    by blast
  note h = ready_history [OF assms(1)]
  have v: "viewport s2 = viewport s" using r(3) u(4) h by simp
  have "butlast ?u @ [last ?u] = ?u" using h by (intro append_butlast_last_id) simp
  then have ul: "dimensions_undo_list s2 = ?u" using r(4) u(3,4) by simp
  have rl: "dimensions_redo_list s2 = dimensions_redo_list s" using r(5) u(4) by simp
  from u(1) r(1,2) v ul rl show ?thesis by blast
qed

lemma scenario_d:
  assumes "ready s"
  shows "\<exists>s1 s2 s3 s4 s5 s6.
           zoom z1 s = Inr s1 \<and> zoom z2 s1 = Inr s2 \<and> zoom z3 s2 = Inr s3 \<and>
           recall_mandelbrot_dimensions False s3 = Inr s4 \<and>
           recall_mandelbrot_dimensions False s4 = Inr s5 \<and>
           recall_mandelbrot_dimensions True s5 = Inr s6 \<and>
           viewport s6 = z2"
proof -
  let ?u = "dimensions_undo_list s"
  from zoom_ok [OF assms, of z1] obtain s1 where
    a: "zoom z1 s = Inr s1" "ready s1" "dimensions_undo_list s1 = ?u @ [z1]"
      "dimensions_redo_list s1 = dimensions_redo_list s" by blast
  from zoom_ok [OF a(2), of z2] obtain s2 where
    b: "zoom z2 s1 = Inr s2" "ready s2" "dimensions_undo_list s2 = dimensions_undo_list s1 @ [z2]"
      "dimensions_redo_list s2 = dimensions_redo_list s1" by blast
  from zoom_ok [OF b(2), of z3] obtain s3 where
    c: "zoom z3 s2 = Inr s3" "ready s3" "dimensions_undo_list s3 = dimensions_undo_list s2 @ [z3]"
      "dimensions_redo_list s3 = dimensions_redo_list s2" by blast
  have u3: "dimensions_undo_list s3 = ?u @ [z1, z2, z3]" using a(3) b(3) c(3) by simp
  then have l3: "2 \<le> length (dimensions_undo_list s3)" by simp
  from undo_ok [OF c(2) l3] obtain s4 where
    d: "recall_mandelbrot_dimensions False s3 = Inr s4" "ready s4"
      "dimensions_undo_list s4 = butlast (dimensions_undo_list s3)"
      "dimensions_redo_list s4 = dimensions_redo_list s3 @ [last (dimensions_undo_list s3)]"
    by blast
  have u4: "dimensions_undo_list s4 = ?u @ [z1, z2]" using d(3) u3 by (simp add: butlast_append)
  then have l4: "2 \<le> length (dimensions_undo_list s4)" by simp
  from undo_ok [OF d(2) l4] obtain s5 where
    e: "recall_mandelbrot_dimensions False s4 = Inr s5" "ready s5"
      "dimensions_redo_list s5 = dimensions_redo_list s4 @ [last (dimensions_undo_list s4)]"
    by blast
  have r5: "dimensions_redo_list s5 = dimensions_redo_list s4 @ [z2]" using e(3) u4 by simp
  then have ne: "dimensions_redo_list s5 \<noteq> []" by simp
  from redo_ok [OF e(2) ne] obtain s6 where
    f: "recall_mandelbrot_dimensions True s5 = Inr s6" "viewport s6 = last (dimensions_redo_list s5)"
    by blast
  have "viewport s6 = z2" using f(2) r5 by simp
  with a(1) b(1) c(1) d(1) e(1) f(1) show ?thesis by blast
qed

subsection \<open>Parsing the dimensions text\<close>

lemma float_all_length: "float_all float items = Some rs \<Longrightarrow> length rs = length items"
  by (induction items arbitrary: rs) (auto split: option.splits)

lemma parse_dimensions_accept:
  "float_all float (split (Some text) '','') = Some [a, b, c, d] \<Longrightarrow> a < b \<Longrightarrow> c < d \<Longrightarrow>
   parse_dimensions float text = Some (a, b, c, d)"
  by (simp add: parse_dimensions_def pyfloat_less_not_ge)

lemma parse_dimensions_unordered:
  "float_all float (split (Some text) '','') = Some [a, b, c, d] \<Longrightarrow> a \<ge> b \<or> c \<ge> d \<Longrightarrow>
   parse_dimensions float text = None"
  by (auto simp: parse_dimensions_def)

lemma parse_dimensions_not_four:
  "float_all float (split (Some text) '','') = None \<or>
   (\<exists>xs. float_all float (split (Some text) '','') = Some xs \<and> length xs \<noteq> 4) \<Longrightarrow>
   parse_dimensions float text = None"
  by (auto simp: parse_dimensions_def)

lemma parse_dimensions_passes_nan:
  "float_all float (split (Some text) '','') = Some [NaN, NaN, NaN, NaN] \<Longrightarrow>
   parse_dimensions float text = Some (NaN, NaN, NaN, NaN)"
  by (simp add: parse_dimensions_def)

lemma split_scenario_b:
  "split (Some ''-2.5, 1.0, -1.25, 1.25'') '','' = [''-2.5'', '' 1.0'', '' -1.25'', '' 1.25'']"
  "split (Some ''-2.5, 1.0'') '','' = [''-2.5'', '' 1.0'']"
  by (simp_all add: split_def)

lemma parse_two_numbers: "parse_dimensions float ''-2.5, 1.0'' = None"
proof (cases "float_all float (split (Some ''-2.5, 1.0'') '','')")
  case None
  then show ?thesis by (simp add: parse_dimensions_def)
next
  case (Some xs)
  from float_all_length [OF Some] have "length xs = 2" by (simp add: split_scenario_b)
  with Some show ?thesis by (simp add: parse_dimensions_def)
qed

lemma parse_scenario_b:
  assumes "float ''-2.5'' = Some (- 2.5)" "float '' 1.0'' = Some 1"
    "float '' -1.25'' = Some (- 1.25)" "float '' 1.25'' = Some 1.25"
  shows "parse_dimensions float ''-2.5, 1.0, -1.25, 1.25'' = Some (- 2.5, 1, - 1.25, 1.25)"
proof -
  have "float_all float (split (Some ''-2.5, 1.0, -1.25, 1.25'') '','') =
          Some [- 2.5, 1, - 1.25, 1.25]"
    unfolding split_scenario_b using assms by simp
  then show ?thesis by (rule parse_dimensions_accept) simp_all
qed

lemma float_scenario_values:
  "float_scenario ''-2.5'' = Some (- 2.5)" "float_scenario '' 1.0'' = Some 1"
  "float_scenario '' -1.25'' = Some (- 1.25)" "float_scenario '' 1.25'' = Some 1.25"
  by (simp_all add: float_scenario_def)

subsection \<open>Fresh zooms and the redo list (C1)\<close>

text \<open>
  Claim C1, amended. A fresh zoom from a ready state (an accepted dimensions text, or a
  drag whose samples all have a raw width that is not zero) leaves the redo list exactly as
  it was before the operation: the code never clears it, so it is empty afterwards only
  when it was empty before.
\<close>

theorem fresh_zoom_keeps_redo_list:
  assumes "ready s"
  shows "(parse_dimensions float text = Some d \<longrightarrow>
            (\<exists>s'. change_image_dimensions float text s = Inr s' \<and> viewport s' = d \<and>
                  dimensions_undo_list s' = dimensions_undo_list s @ [d] \<and>
                  dimensions_redo_list s' = dimensions_redo_list s)) \<and>
         ((\<forall>c \<in> set samples. vx c \<noteq> vx start) \<longrightarrow>
            (\<exists>s'. resize_box start samples s = Inr s' \<and>
                  dimensions_undo_list s' = dimensions_undo_list s @ [viewport s'] \<and>
                  dimensions_redo_list s' = dimensions_redo_list s))"
proof (intro conjI impI)
  assume p: "parse_dimensions float text = Some d"
  from change_image_dimensions_ok [OF assms p] obtain s' where
    "change_image_dimensions float text s = Inr s'" "viewport s' = d"
    "dimensions_undo_list s' = dimensions_undo_list s @ [d]"
    "dimensions_redo_list s' = dimensions_redo_list s"
    by blast
  then show "\<exists>s'. change_image_dimensions float text s = Inr s' \<and> viewport s' = d \<and>
                  dimensions_undo_list s' = dimensions_undo_list s @ [d] \<and>
                  dimensions_redo_list s' = dimensions_redo_list s"
    by blast
next
  assume w: "\<forall>c \<in> set samples. vx c \<noteq> vx start"
  from resize_box_ok [OF assms w] obtain s' where
    "resize_box start samples s = Inr s'"
    "dimensions_undo_list s' = dimensions_undo_list s @ [viewport s']"
    "dimensions_redo_list s' = dimensions_redo_list s"
    by blast
  then show "\<exists>s'. resize_box start samples s = Inr s' \<and>
                  dimensions_undo_list s' = dimensions_undo_list s @ [viewport s'] \<and>
                  dimensions_redo_list s' = dimensions_redo_list s"
    by blast
qed

theorem fresh_zoom_keeps_redo_list_witness:
  "ready example_undone \<and>
   parse_dimensions float_scenario ''-2.5, 1.0, -1.25, 1.25'' = Some (- 2.5, 1, - 1.25, 1.25) \<and>
   vx (vec 3 1 0) \<noteq> vx (vec 0 0 0) \<and>
   (\<exists>s'. change_image_dimensions float_scenario ''-2.5, 1.0, -1.25, 1.25'' example_undone = Inr s' \<and>
         viewport s' = (- 2.5, 1, - 1.25, 1.25) \<and>
         dimensions_redo_list s' = [(- 1, 0, 0, 4 / 5)]) \<and>
   (\<exists>s'. resize_box (vec 0 0 0) [vec 3 1 0] example_undone = Inr s' \<and>
         dimensions_redo_list s' = [(- 1, 0, 0, 4 / 5)])"
proof -
  note r = ready_example_undone
  have p: "parse_dimensions float_scenario ''-2.5, 1.0, -1.25, 1.25'' = Some (- 2.5, 1, - 1.25, 1.25)"
    by (rule parse_scenario_b) (rule float_scenario_values)+
  have w: "\<forall>c \<in> set [vec 3 1 0]. vx c \<noteq> vx (vec 0 0 0)" by simp
  note t = fresh_zoom_keeps_redo_list [OF r, of float_scenario "''-2.5, 1.0, -1.25, 1.25''"
      "(- 2.5, 1, - 1.25, 1.25)" "[vec 3 1 0]" "vec 0 0 0"]
  from t p obtain s1 where
    a: "change_image_dimensions float_scenario ''-2.5, 1.0, -1.25, 1.25'' example_undone = Inr s1"
      "viewport s1 = (- 2.5, 1, - 1.25, 1.25)"
      "dimensions_redo_list s1 = dimensions_redo_list example_undone"
    by blast
  from t w obtain s2 where
    b: "resize_box (vec 0 0 0) [vec 3 1 0] example_undone = Inr s2"
      "dimensions_redo_list s2 = dimensions_redo_list example_undone"
    by blast
  have x: "vx (vec 3 1 0) \<noteq> vx (vec 0 0 0)" by simp
  from a b have
    "\<exists>s'. change_image_dimensions float_scenario ''-2.5, 1.0, -1.25, 1.25'' example_undone = Inr s' \<and>
         viewport s' = (- 2.5, 1, - 1.25, 1.25) \<and>
         dimensions_redo_list s' = [(- 1, 0, 0, 4 / 5)]"
    "\<exists>s'. resize_box (vec 0 0 0) [vec 3 1 0] example_undone = Inr s' \<and>
         dimensions_redo_list s' = [(- 1, 0, 0, 4 / 5)]"
    by (simp_all add: example_undone_fields)
  with r p x show ?thesis by (intro conjI)
qed

text \<open>
  Claim C1 as stated fails: after one zoom and one undo the redo list holds the undone
  view, and a fresh zoom by text entry completes with that entry still on the redo list.
\<close>

theorem fresh_zoom_redo_list_not_emptied:
  "\<not> isl (change_image_dimensions float_scenario ''-2.5, 1.0, -1.25, 1.25'' example_undone) \<and>
   dimensions_redo_list
     (projr (change_image_dimensions float_scenario ''-2.5, 1.0, -1.25, 1.25'' example_undone))
     \<noteq> []"
proof -
  have p: "parse_dimensions float_scenario ''-2.5, 1.0, -1.25, 1.25'' = Some (- 2.5, 1, - 1.25, 1.25)"
    by (rule parse_scenario_b) (rule float_scenario_values)+
  from change_image_dimensions_ok [OF ready_example_undone p] obtain s' where
    a: "change_image_dimensions float_scenario ''-2.5, 1.0, -1.25, 1.25'' example_undone = Inr s'"
      "dimensions_redo_list s' = dimensions_redo_list example_undone"
    by blast
  show ?thesis unfolding a(1) using a(2) by (simp add: example_undone_fields)
qed

subsection \<open>History round trip (C2) and settings changes (C9)\<close>

text \<open>
  Claim C2. From every ready state, when the undo list has at least two entries, Undo
  immediately followed by Redo completes and restores the view that was on display before
  the undo (and both history lists); and after three zooms \<open>z1\<close>, \<open>z2\<close>, \<open>z3\<close>, two undos
  and one redo the view on display is \<open>z2\<close>.
\<close>

theorem undo_then_redo_restores_view:
  assumes "ready s"
  shows "(2 \<le> length (dimensions_undo_list s) \<longrightarrow>
            (\<exists>s1 s2. recall_mandelbrot_dimensions False s = Inr s1 \<and>
                recall_mandelbrot_dimensions True s1 = Inr s2 \<and>
                viewport s2 = viewport s \<and>
                dimensions_undo_list s2 = dimensions_undo_list s \<and>
                dimensions_redo_list s2 = dimensions_redo_list s)) \<and>
         (\<exists>s1 s2 s3 s4 s5 s6.
             zoom z1 s = Inr s1 \<and> zoom z2 s1 = Inr s2 \<and> zoom z3 s2 = Inr s3 \<and>
             recall_mandelbrot_dimensions False s3 = Inr s4 \<and>
             recall_mandelbrot_dimensions False s4 = Inr s5 \<and>
             recall_mandelbrot_dimensions True s5 = Inr s6 \<and>
             viewport s6 = z2)"
proof (intro conjI impI)
  assume l: "2 \<le> length (dimensions_undo_list s)"
  from undo_redo_roundtrip [OF assms l] obtain s1 s2 where
    "recall_mandelbrot_dimensions False s = Inr s1"
    "recall_mandelbrot_dimensions True s1 = Inr s2"
    "viewport s2 = viewport s"
    "dimensions_undo_list s2 = dimensions_undo_list s"
    "dimensions_redo_list s2 = dimensions_redo_list s"
    by blast
  then show "\<exists>s1 s2. recall_mandelbrot_dimensions False s = Inr s1 \<and>
                recall_mandelbrot_dimensions True s1 = Inr s2 \<and>
                viewport s2 = viewport s \<and>
                dimensions_undo_list s2 = dimensions_undo_list s \<and>
                dimensions_redo_list s2 = dimensions_redo_list s"
    by blast
next
  show "\<exists>s1 s2 s3 s4 s5 s6.
             zoom z1 s = Inr s1 \<and> zoom z2 s1 = Inr s2 \<and> zoom z3 s2 = Inr s3 \<and>
             recall_mandelbrot_dimensions False s3 = Inr s4 \<and>
             recall_mandelbrot_dimensions False s4 = Inr s5 \<and>
             recall_mandelbrot_dimensions True s5 = Inr s6 \<and>
             viewport s6 = z2"
    by (rule scenario_d [OF assms])
qed

theorem undo_then_redo_restores_view_witness:
  "ready example_zoomed \<and> 2 \<le> length (dimensions_undo_list example_zoomed) \<and>
   (\<exists>s1 s2. recall_mandelbrot_dimensions False example_zoomed = Inr s1 \<and>
       recall_mandelbrot_dimensions True s1 = Inr s2 \<and>
       viewport s2 = (- 1, 0, 0, 4 / 5)) \<and>
   (\<exists>s1 s2 s3 s4 s5 s6.
       zoom (- 1, 0, - 1 / 2, 1 / 6) example_zoomed = Inr s1 \<and>
       zoom (- 3 / 4, - 1 / 2, 0, 1 / 6) s1 = Inr s2 \<and>
       zoom (- 3 / 4, - 5 / 8, 0, 1 / 12) s2 = Inr s3 \<and>
       recall_mandelbrot_dimensions False s3 = Inr s4 \<and>
       recall_mandelbrot_dimensions False s4 = Inr s5 \<and>
       recall_mandelbrot_dimensions True s5 = Inr s6 \<and>
       viewport s6 = (- 3 / 4, - 1 / 2, 0, 1 / 6))"
proof -
  note r = ready_example_zoomed
  have l: "2 \<le> length (dimensions_undo_list example_zoomed)"
    by (simp add: example_zoomed_fields)
  note t = undo_then_redo_restores_view [OF r, of "(- 1, 0, - 1 / 2, 1 / 6)"
      "(- 3 / 4, - 1 / 2, 0, 1 / 6)" "(- 3 / 4, - 5 / 8, 0, 1 / 12)"]
  from t l obtain s1 s2 where
    a: "recall_mandelbrot_dimensions False example_zoomed = Inr s1"
      "recall_mandelbrot_dimensions True s1 = Inr s2"
      "viewport s2 = viewport example_zoomed"
    by blast
  then have b: "\<exists>s1 s2. recall_mandelbrot_dimensions False example_zoomed = Inr s1 \<and>
       recall_mandelbrot_dimensions True s1 = Inr s2 \<and>
       viewport s2 = (- 1, 0, 0, 4 / 5)"
    by (auto simp: example_zoomed_fields)
  from t have c: "\<exists>s1 s2 s3 s4 s5 s6.
       zoom (- 1, 0, - 1 / 2, 1 / 6) example_zoomed = Inr s1 \<and>
       zoom (- 3 / 4, - 1 / 2, 0, 1 / 6) s1 = Inr s2 \<and>
       zoom (- 3 / 4, - 5 / 8, 0, 1 / 12) s2 = Inr s3 \<and>
       recall_mandelbrot_dimensions False s3 = Inr s4 \<and>
       recall_mandelbrot_dimensions False s4 = Inr s5 \<and>
       recall_mandelbrot_dimensions True s5 = Inr s6 \<and>
       viewport s6 = (- 3 / 4, - 1 / 2, 0, 1 / 6)"
    by (rule conjunct2)
  from r l b c show ?thesis by (intro conjI)
qed

text \<open>
  Claim C9. From every ready state, an accepted depth (a number in \<open>[1, 1000]\<close>, for
  instance 50), a colormap choice and a resolution choice among the presets each complete
  with a re-render that leaves the bounds on display and both history lists as they were
  before the change.
\<close>

theorem settings_change_preserves_view_and_history:
  assumes "ready s"
  shows "(1 \<le> number \<and> number \<le> 1000 \<longrightarrow>
            (\<exists>s'. change_search_depth number s = Inr s' \<and> loaded s' \<and>
                  max_iter s' = py_int number \<and> viewport s' = viewport s \<and>
                  colormap s' = colormap s \<and>
                  dimensions_undo_list s' = dimensions_undo_list s \<and>
                  dimensions_redo_list s' = dimensions_redo_list s \<and>
                  length (rendered_vertices s') = nat (width s) * nat (height s))) \<and>
         (\<exists>s'. change_colormap selected s = Inr s' \<and> loaded s' \<and>
               colormap s' = selected \<and> viewport s' = viewport s \<and>
               dimensions_undo_list s' = dimensions_undo_list s \<and>
               dimensions_redo_list s' = dimensions_redo_list s \<and>
               length (rendered_vertices s') = nat (width s) * nat (height s)) \<and>
         (index < length resolution_choices \<longrightarrow>
            (\<exists>s'. change_resolution index s = Inr s' \<and> loaded s' \<and>
                  (height s', width s') = resolution_choices ! index \<and>
                  viewport s' = viewport s \<and>
                  dimensions_undo_list s' = dimensions_undo_list s \<and>
                  dimensions_redo_list s' = dimensions_redo_list s \<and>
                  length (rendered_vertices s') = nat (width s') * nat (height s')))"
proof (intro conjI impI)
  assume n: "1 \<le> number \<and> number \<le> 1000"
  from change_search_depth_ok [OF assms, of number] n obtain s' where
    z: "change_search_depth number s = Inr s'" "ready s'"
      "max_iter s' = py_int number" "viewport s' = viewport s" "colormap s' = colormap s"
      "dimensions_undo_list s' = dimensions_undo_list s"
      "dimensions_redo_list s' = dimensions_redo_list s"
      "length (rendered_vertices s') = nat (width s) * nat (height s)"
    by blast
  from z(2) have "loaded s'" by (rule ready_loaded)
  with z show "\<exists>s'. change_search_depth number s = Inr s' \<and> loaded s' \<and>
                  max_iter s' = py_int number \<and> viewport s' = viewport s \<and>
                  colormap s' = colormap s \<and>
                  dimensions_undo_list s' = dimensions_undo_list s \<and>
                  dimensions_redo_list s' = dimensions_redo_list s \<and>
                  length (rendered_vertices s') = nat (width s) * nat (height s)"
    by blast
next
  from change_colormap_ok [OF assms, of selected] obtain s' where
    z: "change_colormap selected s = Inr s'" "ready s'"
      "colormap s' = selected" "viewport s' = viewport s"
      "dimensions_undo_list s' = dimensions_undo_list s"
      "dimensions_redo_list s' = dimensions_redo_list s"
      "length (rendered_vertices s') = nat (width s) * nat (height s)"
    by blast
  from z(2) have "loaded s'" by (rule ready_loaded)
  with z show "\<exists>s'. change_colormap selected s = Inr s' \<and> loaded s' \<and>
               colormap s' = selected \<and> viewport s' = viewport s \<and>
               dimensions_undo_list s' = dimensions_undo_list s \<and>
               dimensions_redo_list s' = dimensions_redo_list s \<and>
               length (rendered_vertices s') = nat (width s) * nat (height s)"
    by blast
next
  assume i: "index < length resolution_choices"
  from change_resolution_ok [OF assms i] obtain s' where
    z: "change_resolution index s = Inr s'" "ready s'"
      "height s' = fst (resolution_choices ! index)"
      "width s' = snd (resolution_choices ! index)" "viewport s' = viewport s"
      "dimensions_undo_list s' = dimensions_undo_list s"
      "dimensions_redo_list s' = dimensions_redo_list s"
      "length (rendered_vertices s') =
         nat (snd (resolution_choices ! index)) * nat (fst (resolution_choices ! index))"
    by blast
  from z(2) have l: "loaded s'" by (rule ready_loaded)
  have hw: "(height s', width s') = resolution_choices ! index" using z(3,4) by simp
  have n: "length (rendered_vertices s') = nat (width s') * nat (height s')"
    using z(3,4,8) by simp
  from z(1) l hw z(5,6,7) n
  show "\<exists>s'. change_resolution index s = Inr s' \<and> loaded s' \<and>
                  (height s', width s') = resolution_choices ! index \<and>
                  viewport s' = viewport s \<and>
                  dimensions_undo_list s' = dimensions_undo_list s \<and>
                  dimensions_redo_list s' = dimensions_redo_list s \<and>
                  length (rendered_vertices s') = nat (width s') * nat (height s')"
    by blast
qed

theorem settings_change_preserves_view_and_history_witness:
  "ready example_undone \<and> (1 :: real) \<le> 50 \<and> (50 :: real) \<le> 1000 \<and>
   1 < length resolution_choices \<and>
   (\<exists>s'. change_search_depth 50 example_undone = Inr s' \<and> loaded s' \<and> max_iter s' = 50 \<and>
         viewport s' = (- 2, 1 / 2, - 1, 1) \<and>
         dimensions_undo_list s' = [(- 2, 1 / 2, - 1, 1)] \<and>
         dimensions_redo_list s' = [(- 1, 0, 0, 4 / 5)]) \<and>
   (\<exists>s'. change_colormap ''inferno'' example_undone = Inr s' \<and> loaded s' \<and>
         colormap s' = ''inferno'' \<and>
         viewport s' = (- 2, 1 / 2, - 1, 1) \<and>
         dimensions_undo_list s' = [(- 2, 1 / 2, - 1, 1)] \<and>
         dimensions_redo_list s' = [(- 1, 0, 0, 4 / 5)]) \<and>
   (\<exists>s'. change_resolution 1 example_undone = Inr s' \<and> loaded s' \<and>
         (height s', width s') = (60, 90) \<and>
         viewport s' = (- 2, 1 / 2, - 1, 1) \<and>
         dimensions_undo_list s' = [(- 2, 1 / 2, - 1, 1)] \<and>
         dimensions_redo_list s' = [(- 1, 0, 0, 4 / 5)])"
proof -
  note r = ready_example_undone
  note t = settings_change_preserves_view_and_history [OF r, of 50 "''inferno''" 1]
  have n: "(1 :: real) \<le> 50 \<and> (50 :: real) \<le> 1000" by simp
  have i: "1 < length resolution_choices" by (simp add: resolution_choices_def)
  have p: "py_int 50 = 50" by (simp add: py_int_def)
  have q: "resolution_choices ! 1 = (60, 90)" by (simp add: resolution_choices_def)
  from t n obtain s1 where
    a: "change_search_depth 50 example_undone = Inr s1" "loaded s1" "max_iter s1 = py_int 50"
      "viewport s1 = viewport example_undone"
      "dimensions_undo_list s1 = dimensions_undo_list example_undone"
      "dimensions_redo_list s1 = dimensions_redo_list example_undone"
    by blast
  from t obtain s2 where
    b: "change_colormap ''inferno'' example_undone = Inr s2" "loaded s2"
      "colormap s2 = ''inferno''"
      "viewport s2 = viewport example_undone"
      "dimensions_undo_list s2 = dimensions_undo_list example_undone"
      "dimensions_redo_list s2 = dimensions_redo_list example_undone"
    by blast
  from t i obtain s3 where
    c: "change_resolution 1 example_undone = Inr s3" "loaded s3"
      "(height s3, width s3) = resolution_choices ! 1"
      "viewport s3 = viewport example_undone"
      "dimensions_undo_list s3 = dimensions_undo_list example_undone"
      "dimensions_redo_list s3 = dimensions_redo_list example_undone"
    by blast
  have A: "\<exists>s'. change_search_depth 50 example_undone = Inr s' \<and> loaded s' \<and> max_iter s' = 50 \<and>
         viewport s' = (- 2, 1 / 2, - 1, 1) \<and>
         dimensions_undo_list s' = [(- 2, 1 / 2, - 1, 1)] \<and>
         dimensions_redo_list s' = [(- 1, 0, 0, 4 / 5)]"
    using a p by (intro exI [of _ s1]) (simp add: example_undone_fields)
  have B: "\<exists>s'. change_colormap ''inferno'' example_undone = Inr s' \<and> loaded s' \<and>
         colormap s' = ''inferno'' \<and>
         viewport s' = (- 2, 1 / 2, - 1, 1) \<and>
         dimensions_undo_list s' = [(- 2, 1 / 2, - 1, 1)] \<and>
         dimensions_redo_list s' = [(- 1, 0, 0, 4 / 5)]"
    using b by (intro exI [of _ s2]) (simp add: example_undone_fields)
  have C: "\<exists>s'. change_resolution 1 example_undone = Inr s' \<and> loaded s' \<and>
         (height s', width s') = (60, 90) \<and>
         viewport s' = (- 2, 1 / 2, - 1, 1) \<and>
         dimensions_undo_list s' = [(- 2, 1 / 2, - 1, 1)] \<and>
         dimensions_redo_list s' = [(- 1, 0, 0, 4 / 5)]"
    using c q by (intro exI [of _ s3]) (simp add: example_undone_fields)
  from n have n1: "(1 :: real) \<le> 50" and n2: "(50 :: real) \<le> 1000" by simp_all
  from r n1 n2 i A B C show ?thesis by (intro conjI)
qed

subsection \<open>Validation of the dimensions text (C6)\<close>

text \<open>
  For tokens that \<^verbatim>\<open>float\<close> reads as numbers the handler does what is asked of it: four
  numbers with \<open>x_min < x_max\<close> and \<open>y_min < y_max\<close> are applied and the whole grid is
  rendered; four numbers in another order, a token that \<^verbatim>\<open>float\<close> refuses and a count of
  tokens other than four are rejected with the message and no other change.
\<close>

lemma change_image_dimensions_numbers:
  assumes "ready s"
    and "float_all float (split (Some text) '','') = Some [Num a, Num b, Num c, Num d]"
  shows "(a < b \<and> c < d \<longrightarrow>
            (\<exists>s'. change_image_dimensions float text s = Inr s' \<and> loaded s' \<and>
                  viewport s' = (Num a, Num b, Num c, Num d) \<and>
                  dimensions_undo_list s' = dimensions_undo_list s @ [(Num a, Num b, Num c, Num d)] \<and>
                  dimensions_redo_list s' = dimensions_redo_list s \<and>
                  max_iter s' = max_iter s \<and> height s' = height s \<and> width s' = width s \<and>
                  colormap s' = colormap s \<and> console s' = console s \<and>
                  length (rendered_vertices s') = nat (width s) * nat (height s))) \<and>
         (\<not> (a < b \<and> c < d) \<longrightarrow>
            change_image_dimensions float text s =
              Inr (s\<lparr>console := console s @ [''Invalid dimensions.'']\<rparr>))"
proof (intro conjI impI)
  assume o: "a < b \<and> c < d"
  have p: "parse_dimensions float text = Some (Num a, Num b, Num c, Num d)"
    by (rule parse_dimensions_accept [OF assms(2)]) (use o in simp_all)
  from change_image_dimensions_ok [OF assms(1) p] obtain s' where
    z: "change_image_dimensions float text s = Inr s'" "ready s'"
      "viewport s' = (Num a, Num b, Num c, Num d)"
      "dimensions_undo_list s' = dimensions_undo_list s @ [(Num a, Num b, Num c, Num d)]"
      "dimensions_redo_list s' = dimensions_redo_list s"
      "max_iter s' = max_iter s" "height s' = height s" "width s' = width s"
      "colormap s' = colormap s" "console s' = console s"
      "length (rendered_vertices s') = nat (width s) * nat (height s)"
    by blast
  from z(2) have l: "loaded s'" by (rule ready_loaded)
  show "\<exists>s'. change_image_dimensions float text s = Inr s' \<and> loaded s' \<and>
                  viewport s' = (Num a, Num b, Num c, Num d) \<and>
                  dimensions_undo_list s' = dimensions_undo_list s @ [(Num a, Num b, Num c, Num d)] \<and>
                  dimensions_redo_list s' = dimensions_redo_list s \<and>
                  max_iter s' = max_iter s \<and> height s' = height s \<and> width s' = width s \<and>
                  colormap s' = colormap s \<and> console s' = console s \<and>
                  length (rendered_vertices s') = nat (width s) * nat (height s)"
    by (rule exI [of _ s']) (intro conjI z(1) l z(3-11))
next
  assume "\<not> (a < b \<and> c < d)"
  then have "Num a \<ge> Num b \<or> Num c \<ge> Num d" by auto
  then have "parse_dimensions float text = None"
    by (rule parse_dimensions_unordered [OF assms(2)])
  then show "change_image_dimensions float text s =
              Inr (s\<lparr>console := console s @ [''Invalid dimensions.'']\<rparr>)"
    by (rule change_image_dimensions_reject [OF ready_loaded [OF assms(1)]])
qed

lemma change_image_dimensions_not_four:
  assumes "loaded s"
    and "float_all float (split (Some text) '','') = None \<or>
         (\<exists>xs. float_all float (split (Some text) '','') = Some xs \<and> length xs \<noteq> 4)"
  shows "change_image_dimensions float text s =
           Inr (s\<lparr>console := console s @ [''Invalid dimensions.'']\<rparr>)"
  by (rule change_image_dimensions_reject [OF assms(1) parse_dimensions_not_four [OF assms(2)]])

lemma float_nan_values: "float_nan ''nan'' = Some NaN" "float_nan '' nan'' = Some NaN"
  by (simp_all add: float_nan_def)

lemma parse_nan_text:
  "parse_dimensions float_nan ''nan, nan, nan, nan'' = Some (NaN, NaN, NaN, NaN)"
proof -
  have "split (Some ''nan, nan, nan, nan'') '','' = [''nan'', '' nan'', '' nan'', '' nan'']"
    by (simp add: split_def)
  then have "float_all float_nan (split (Some ''nan, nan, nan, nan'') '','') =
      Some [NaN, NaN, NaN, NaN]"
    by (simp add: float_nan_values)
  then show ?thesis by (rule parse_dimensions_passes_nan)
qed

text \<open>
  Claim C6 fails on the code: the text \<^verbatim>\<open>nan, nan, nan, nan\<close> has four tokens that
  \<^verbatim>\<open>float\<close> accepts, neither \<open>x_min < x_max\<close> nor \<open>y_min < y_max\<close> holds, and yet both
  tests \<open>x_min \<ge> x_max\<close> and \<open>y_min \<ge> y_max\<close> are false, so the handler prints nothing,
  makes the four NaN the bounds of the view, pushes them on the undo list and renders.
\<close>

theorem nan_dimensions_text_is_applied:
  "loaded example_state \<and>
   parse_dimensions float_nan ''nan, nan, nan, nan'' = Some (NaN, NaN, NaN, NaN) \<and>
   \<not> (NaN < (NaN :: pyfloat)) \<and>
   \<not> isl (change_image_dimensions float_nan ''nan, nan, nan, nan'' example_state) \<and>
   viewport (projr (change_image_dimensions float_nan ''nan, nan, nan, nan'' example_state)) =
     (NaN, NaN, NaN, NaN) \<and>
   dimensions_undo_list
     (projr (change_image_dimensions float_nan ''nan, nan, nan, nan'' example_state)) =
     [(- 2, 1 / 2, - 1, 1), (NaN, NaN, NaN, NaN)] \<and>
   console (projr (change_image_dimensions float_nan ''nan, nan, nan, nan'' example_state)) = []"
proof -
  from change_image_dimensions_ok [OF ready_example_state parse_nan_text] obtain s' where
    a: "change_image_dimensions float_nan ''nan, nan, nan, nan'' example_state = Inr s'"
      "viewport s' = (NaN, NaN, NaN, NaN)"
      "dimensions_undo_list s' = dimensions_undo_list example_state @ [(NaN, NaN, NaN, NaN)]"
      "console s' = console example_state"
    by blast
  have n: "\<not> (NaN < (NaN :: pyfloat))" by simp
  have u: "dimensions_undo_list s' = [(- 2, 1 / 2, - 1, 1), (NaN, NaN, NaN, NaN)]"
    using a(3) by (simp add: example_state_fields)
  have c: "console s' = []" unfolding a(4) by (rule example_state_fields)
  have l: "loaded example_state" by (rule example_state_fields)
  from l parse_nan_text n a(2) u c show ?thesis
    unfolding a(1) by simp
qed

subsection \<open>The object pool (C8)\<close>

lemma change_parameters_totals:
  assumes "change_parameters mi d res cm t = Inr s'"
    and "existing_vertices t = existing_vertices s" "rendered_vertices t = rendered_vertices s"
    and "existing_quads t = existing_quads s" "rendered_quads t = rendered_quads s"
  shows "total_vertices s \<le> total_vertices s' \<and> total_quads s \<le> total_quads s'"
proof -
  have "total_vertices t = total_vertices s" "total_quads t = total_quads s"
    using assms(2-5) by (simp_all add: total_vertices_def total_quads_def)
  with change_parameters_step [OF assms(1)] show ?thesis by simp
qed

lemma resize_box_loop_totals:
  "resize_box_loop start opp samples s = Inr s' \<Longrightarrow>
   total_vertices s \<le> total_vertices s' \<and> total_quads s \<le> total_quads s'"
proof (induction samples arbitrary: opp)
  case Nil
  then have "\<exists>d. change_parameters (max_iter s) d (height s, width s) (colormap s) s = Inr s'"
    by (auto simp: resize_box_release_def Let_def split: if_splits)
  then obtain d where "change_parameters (max_iter s) d (height s, width s) (colormap s) s = Inr s'"
    by blast
  from change_parameters_totals [OF this refl refl refl refl] show ?case .
next
  case (Cons c samples)
  then show ?case by (auto split: sum.splits)
qed

lemma resize_box_totals:
  assumes "resize_box start samples s = Inr s'"
  shows "total_vertices s \<le> total_vertices s' \<and> total_quads s \<le> total_quads s'"
proof (cases "loaded s")
  case True
  with assms have "resize_box_loop start start samples s = Inr s'" by (simp add: resize_box_def)
  then show ?thesis by (rule resize_box_loop_totals)
next
  case False
  with assms show ?thesis by (simp add: resize_box_def)
qed

lemma load_recent_dimensions_totals:
  assumes "load_recent_dimensions redo mi res cm s = Inr s'"
  shows "total_vertices s \<le> total_vertices s' \<and> total_quads s \<le> total_quads s'"
proof (cases redo)
  case True
  show ?thesis
  proof (cases "0 < length (dimensions_redo_list s)")
    case nonempty: True
    let ?t = "s\<lparr>loaded := False, dimensions_redo_list := butlast (dimensions_redo_list s)\<rparr>"
    from assms True nonempty
    have "change_parameters mi (last (dimensions_redo_list s)) res cm ?t = Inr s'"
      by (simp add: load_recent_dimensions_def Let_def)
    from change_parameters_totals [OF this, of s] show ?thesis by simp
  next
    case False
    with assms True have "s' = s\<lparr>loaded := False\<rparr>"
      by (simp add: load_recent_dimensions_def Let_def)
    then show ?thesis by (simp add: total_vertices_def total_quads_def)
  qed
next
  case False
  show ?thesis
  proof (cases "length (dimensions_undo_list s) \<le> 1")
    case True
    with assms False have "s' = s\<lparr>loaded := False\<rparr>"
      by (simp add: load_recent_dimensions_def Let_def)
    then show ?thesis by (simp add: total_vertices_def total_quads_def)
  next
    case long: False
    let ?t = "s\<lparr>loaded := False,
                dimensions_redo_list := dimensions_redo_list s @ [last (dimensions_undo_list s)],
                dimensions_undo_list := butlast (butlast (dimensions_undo_list s))\<rparr>"
    from assms False long
    have "change_parameters mi (last (butlast (dimensions_undo_list s))) res cm ?t = Inr s'"
      by (simp add: load_recent_dimensions_def Let_def)
    from change_parameters_totals [OF this, of s] show ?thesis by simp
  qed
qed

lemma recall_mandelbrot_dimensions_totals:
  assumes "recall_mandelbrot_dimensions redo s = Inr s'"
  shows "total_vertices s \<le> total_vertices s' \<and> total_quads s \<le> total_quads s'"
proof (cases "\<not> loaded s \<or>
    (length (dimensions_undo_list s) = 1 \<and> length (dimensions_redo_list s) = 0)")
  case True
  with assms have "s' = s"
    unfolding recall_mandelbrot_dimensions_def by (auto split: if_splits)
  then show ?thesis by simp
next
  case False
  with assms have "load_recent_dimensions redo (max_iter s) (height s, width s) (colormap s) s = Inr s'"
    unfolding recall_mandelbrot_dimensions_def by (auto split: if_splits)
  then show ?thesis by (rule load_recent_dimensions_totals)
qed

lemma repush_totals:
  assumes "dimensions_undo_list s \<noteq> [] \<Longrightarrow>
      change_parameters mi (last (dimensions_undo_list s)) res cm
         (s\<lparr>dimensions_undo_list := butlast (dimensions_undo_list s)\<rparr>) = Inr s'"
    and "dimensions_undo_list s \<noteq> []"
  shows "total_vertices s \<le> total_vertices s' \<and> total_quads s \<le> total_quads s'"
  using change_parameters_totals [OF assms(1) [OF assms(2)], of s] by simp

lemma change_resolution_totals:
  assumes "change_resolution index s = Inr s'"
  shows "total_vertices s \<le> total_vertices s' \<and> total_quads s \<le> total_quads s'"
proof (cases "loaded s")
  case False
  with assms show ?thesis by (simp add: change_resolution_def)
next
  case True
  have ne: "dimensions_undo_list s \<noteq> []"
    using assms True by (auto simp: change_resolution_def pop_def)
  have "change_parameters (max_iter s) (last (dimensions_undo_list s)) (resolution_choices ! index)
      (colormap s) (s\<lparr>dimensions_undo_list := butlast (dimensions_undo_list s)\<rparr>) = Inr s'"
    using assms True ne by (simp add: change_resolution_def pop_def split: if_splits)
  then show ?thesis using ne by (intro repush_totals)
qed

lemma change_colormap_totals:
  assumes "change_colormap selected s = Inr s'"
  shows "total_vertices s \<le> total_vertices s' \<and> total_quads s \<le> total_quads s'"
proof (cases "loaded s")
  case False
  with assms show ?thesis by (simp add: change_colormap_def)
next
  case True
  have ne: "dimensions_undo_list s \<noteq> []"
    using assms True by (auto simp: change_colormap_def pop_def)
  have "change_parameters (max_iter s) (last (dimensions_undo_list s)) (height s, width s)
      selected (s\<lparr>dimensions_undo_list := butlast (dimensions_undo_list s)\<rparr>) = Inr s'"
    using assms True ne by (simp add: change_colormap_def pop_def)
  then show ?thesis using ne by (intro repush_totals)
qed

lemma change_search_depth_totals:
  assumes "change_search_depth number s = Inr s'"
  shows "total_vertices s \<le> total_vertices s' \<and> total_quads s \<le> total_quads s'"
proof (cases "loaded s")
  case False
  with assms show ?thesis by (simp add: change_search_depth_def)
next
  case True
  show ?thesis
  proof (cases "number < 1 \<or> number > 1000")
    case out: True
    with assms True have "s' = s\<lparr>console := console s @ [''Please enter a number between 1 - 1000'']\<rparr>"
      by (auto simp: change_search_depth_def)
    then show ?thesis by (simp add: total_vertices_def total_quads_def)
  next
    case False
    have ne: "dimensions_undo_list s \<noteq> []"
      using assms True False by (auto simp: change_search_depth_def pop_def Let_def)
    have "change_parameters (py_int number) (last (dimensions_undo_list s)) (height s, width s)
        (colormap s) (s\<lparr>dimensions_undo_list := butlast (dimensions_undo_list s)\<rparr>) = Inr s'"
      using assms True False ne by (simp add: change_search_depth_def pop_def Let_def)
    then show ?thesis using ne by (intro repush_totals)
  qed
qed

lemma change_image_dimensions_totals:
  assumes "change_image_dimensions float text s = Inr s'"
  shows "total_vertices s \<le> total_vertices s' \<and> total_quads s \<le> total_quads s'"
proof (cases "loaded s")
  case False
  with assms show ?thesis by (simp add: change_image_dimensions_def)
next
  case True
  show ?thesis
  proof (cases "parse_dimensions float text")
    case None
    with assms True have "s' = s\<lparr>console := console s @ [''Invalid dimensions.'']\<rparr>"
      by (simp add: change_image_dimensions_def)
    then show ?thesis by (simp add: total_vertices_def total_quads_def)
  next
    case (Some d)
    with assms True
    have "change_parameters (max_iter s) d (height s, width s) (colormap s) s = Inr s'"
      by (simp add: change_image_dimensions_def)
    from change_parameters_totals [OF this refl refl refl refl] show ?thesis .
  qed
qed

lemma handle_totals:
  "handle float ev s = Inr s' \<Longrightarrow>
   total_vertices s \<le> total_vertices s' \<and> total_quads s \<le> total_quads s'"
proof (cases ev)
  case (MouseDrag start samples)
  assume "handle float ev s = Inr s'"
  with MouseDrag show ?thesis using resize_box_totals by simp
next
  case UndoClick
  assume "handle float ev s = Inr s'"
  with UndoClick show ?thesis using recall_mandelbrot_dimensions_totals by simp
next
  case RedoClick
  assume "handle float ev s = Inr s'"
  with RedoClick show ?thesis using recall_mandelbrot_dimensions_totals by simp
next
  case (ResolutionMenu index)
  assume "handle float ev s = Inr s'"
  with ResolutionMenu show ?thesis using change_resolution_totals by simp
next
  case (ColormapMenu selected)
  assume "handle float ev s = Inr s'"
  with ColormapMenu show ?thesis using change_colormap_totals by simp
next
  case (DepthInput number)
  assume "handle float ev s = Inr s'"
  with DepthInput show ?thesis using change_search_depth_totals by simp
next
  case (DimensionsInput str)
  assume "handle float ev s = Inr s'"
  with DimensionsInput show ?thesis using change_image_dimensions_totals by simp
qed

lemma run_totals:
  "run float evs s = Inr s' \<Longrightarrow>
   total_vertices s \<le> total_vertices s' \<and> total_quads s \<le> total_quads s'"
proof (induction evs arbitrary: s)
  case Nil
  then show ?case by simp
next
  case (Cons ev evs)
  from Cons.prems obtain s1 where
    h: "handle float ev s = Inr s1" and r: "run float evs s1 = Inr s'"
    by (auto split: sum.splits)
  from handle_totals [OF h] Cons.IH [OF r] show ?case by simp
qed

lemma run_resolutions_ok:
  "ready s \<Longrightarrow> \<forall>i \<in> set idxs. i < length resolution_choices \<Longrightarrow>
   \<exists>s'. run float (map ResolutionMenu idxs) s = Inr s' \<and> ready s'"
proof (induction idxs arbitrary: s)
  case Nil
  then show ?case by simp
next
  case (Cons i idxs)
  have i: "i < length resolution_choices" using Cons.prems(2) by simp
  from change_resolution_ok [OF Cons.prems(1) i] obtain s1 where
    c: "change_resolution i s = Inr s1" "ready s1" by blast
  have "\<forall>i \<in> set idxs. i < length resolution_choices" using Cons.prems(2) by simp
  from Cons.IH [OF c(2) this] obtain s' where
    "run float (map ResolutionMenu idxs) s1 = Inr s'" "ready s'" by blast
  with c(1) show ?case by simp
qed

lemma Mandelbrot_init_ready:
  assumes res: "res \<in> set resolution_choices"
  shows "\<exists>s. Mandelbrot_init mi d res cm = Inr s \<and> ready s \<and>
           max_iter s = mi \<and> viewport s = d \<and> height s = fst res \<and> width s = snd res \<and>
           colormap s = cm \<and> dimensions_undo_list s = [d] \<and> dimensions_redo_list s = [] \<and>
           length (rendered_vertices s) = nat (snd res) * nat (fst res)"
proof -
  obtain h w where hw: "res = (h, w)" by (cases res)
  have pos: "1 \<le> h" "1 \<le> w" using preset_pos [OF res] by (simp_all add: hw)
  define s0 where "s0 = \<lparr>max_iter = mi,
               x_min = fst d, x_max = fst (snd d), y_min = fst (snd (snd d)),
               y_max = snd (snd (snd d)),
               height = h, width = w, colormap = cm,
               rendered_vertices = [], existing_vertices = [],
               rendered_quads = [], existing_quads = [],
               dimensions_undo_list = [d], dimensions_redo_list = [],
               loaded = False, console = []\<rparr>"
  define t where "t = load_fresh_loop (nat (h * w)) s0"
  have init: "Mandelbrot_init mi d res cm = load_new_mandelbrot t"
    by (cases d) (simp add: Mandelbrot_init_def Let_def load_fresh_objects_def hw t_def s0_def)
  have s0: "settings s0 = (mi, d, h, w, cm, [d], [], [])" "height s0 = h" "width s0 = w"
    "existing_vertices s0 = []" "existing_quads s0 = []"
    "rendered_vertices s0 = []" "rendered_quads s0 = []"
    by (simp_all add: s0_def settings_def viewport_def)
  note l = load_fresh_loop_step [of "nat (h * w)" s0, folded t_def]
  have st: "settings t = (mi, d, h, w, cm, [d], [], [])" using l s0 by simp
  then have hgt: "height t = h" and wid: "width t = w" by (simp_all add: settings_def)
  have rv: "rendered_vertices t = []" "rendered_quads t = []" using l s0 by simp_all
  have hw0: "0 \<le> h * w" using pos by simp
  have ev: "int (length (existing_vertices t)) = h * w" using l s0 hw0 by simp
  have cap: "0 \<le> (h - 1) * w" "(h - 1) * w \<le> h * w" using pos by (simp_all add: mult_right_mono)
  have "int (length (existing_quads t)) = min (int (nat (h * w))) ((h - 1) * w)"
    using l s0 cap by simp
  with cap hw0 have eq: "int (length (existing_quads t)) = (h - 1) * w" by simp
  have "(w - 1) * (h - 1) \<le> (h - 1) * w" using pos by (simp add: algebra_simps)
  with pos ev eq hgt wid have "\<exists>s. load_new_mandelbrot t = Inr s"
    by (intro load_new_mandelbrot_ok_int) (simp_all add: mult.commute)
  then obtain s where s: "load_new_mandelbrot t = Inr s" by blast
  note a = load_new_mandelbrot_step [OF s]
  have set: "settings s = (mi, d, h, w, cm, [d], [], [])" using a st by simp
  then have f: "max_iter s = mi" "viewport s = d" "height s = h" "width s = w" "colormap s = cm"
    "dimensions_undo_list s = [d]" "dimensions_redo_list s = []"
    by (simp_all add: settings_def)
  have tv: "int (total_vertices s) = h * w" using a ev rv by (simp add: total_vertices_def)
  have tq: "int (total_quads s) = (h - 1) * w" using a eq rv by (simp add: total_quads_def)
  have sized: "pool_sized s res" using tv tq by (simp add: pool_sized_def hw)
  have "pool_inv s" unfolding pool_inv_def
  proof
    show "(height s, width s) \<in> set resolution_choices" using f res by (simp add: hw)
    show "\<exists>r\<in>set resolution_choices. height s \<le> fst r \<and> width s \<le> snd r \<and> pool_sized s r"
      by (rule bexI [of _ res]) (use f sized res in \<open>simp_all add: hw\<close>)
  qed
  moreover have "history_inv s" using f by (simp add: history_inv_def)
  moreover have "loaded s" using a by simp
  ultimately have "ready s" by (simp add: ready_def)
  moreover have "length (rendered_vertices s) = nat w * nat h" using a rv hgt wid by simp
  ultimately show ?thesis using init s f by (simp add: hw)
qed

text \<open>
  Claim C8. Over every sequence of user events that completes, the number of vertex
  objects and the number of quad objects (pool plus active) do not decrease; and for
  every sequence of resolution changes among the presets, from the object the
  constructor builds for a preset or from any ready state, every re-render finds the
  objects it takes from the pool: the whole sequence completes without an error.
\<close>

theorem pool_never_shrinks_and_never_runs_dry:
  "(run float evs s = Inr s' \<longrightarrow>
      total_vertices s \<le> total_vertices s' \<and> total_quads s \<le> total_quads s') \<and>
   (res \<in> set resolution_choices \<and> (\<forall>i \<in> set idxs. i < length resolution_choices) \<longrightarrow>
      (\<exists>s0 s1. Mandelbrot_init mi d res cm = Inr s0 \<and>
          run float (map ResolutionMenu idxs) s0 = Inr s1 \<and> ready s1)) \<and>
   (ready t \<and> (\<forall>i \<in> set idxs. i < length resolution_choices) \<longrightarrow>
      (\<exists>t'. run float (map ResolutionMenu idxs) t = Inr t' \<and> ready t'))"
proof (intro conjI impI)
  assume "run float evs s = Inr s'"
  then show "total_vertices s \<le> total_vertices s'" "total_quads s \<le> total_quads s'"
    using run_totals by blast+
next
  assume h: "res \<in> set resolution_choices \<and> (\<forall>i \<in> set idxs. i < length resolution_choices)"
  from Mandelbrot_init_ready [of res mi d cm] h obtain s0 where
    a: "Mandelbrot_init mi d res cm = Inr s0" "ready s0" by blast
  from run_resolutions_ok [OF a(2), of idxs float] h obtain s1 where
    "run float (map ResolutionMenu idxs) s0 = Inr s1" "ready s1" by blast
  with a(1) show "\<exists>s0 s1. Mandelbrot_init mi d res cm = Inr s0 \<and>
          run float (map ResolutionMenu idxs) s0 = Inr s1 \<and> ready s1"
    by blast
next
  assume h: "ready t \<and> (\<forall>i \<in> set idxs. i < length resolution_choices)"
  then show "\<exists>t'. run float (map ResolutionMenu idxs) t = Inr t' \<and> ready t'"
    using run_resolutions_ok [of t idxs float] by blast
qed

theorem pool_never_shrinks_and_never_runs_dry_witness:
  "ready example_state \<and>
   (180, 270) \<in> set resolution_choices \<and>
   4 < length resolution_choices \<and> 0 < length resolution_choices \<and>
   (\<exists>s'. run float_scenario [ResolutionMenu 4, ResolutionMenu 0] example_state = Inr s' \<and>
         ready s' \<and>
         total_vertices example_state \<le> total_vertices s' \<and>
         total_quads example_state \<le> total_quads s') \<and>
   (\<exists>s0 s1. Mandelbrot_init 100 (- 2, 1 / 2, - 1, 1) (180, 270) ''default'' = Inr s0 \<and>
         run float_scenario [ResolutionMenu 4, ResolutionMenu 0] s0 = Inr s1 \<and> ready s1)"
proof -
  note r = ready_example_state
  have p: "(180, 270) \<in> set resolution_choices" by (simp add: resolution_choices_def)
  have i: "4 < length resolution_choices" "0 < length resolution_choices"
    by (simp_all add: resolution_choices_def)
  then have ix: "\<forall>i \<in> set [4, 0]. i < length resolution_choices" by simp
  have m: "map ResolutionMenu [4, 0] = [ResolutionMenu 4, ResolutionMenu 0]" by simp
  note t0 = pool_never_shrinks_and_never_runs_dry [of float_scenario _ _ _ "(180, 270)" "[4, 0]"
      100 "(- 2, 1 / 2, - 1, 1)" "''default''" example_state, unfolded m]
  from t0 r ix obtain s' where
    a: "run float_scenario [ResolutionMenu 4, ResolutionMenu 0] example_state = Inr s'" "ready s'"
    by blast
  from pool_never_shrinks_and_never_runs_dry [of float_scenario
      "[ResolutionMenu 4, ResolutionMenu 0]" example_state s'] a(1)
  have b: "total_vertices example_state \<le> total_vertices s'"
    "total_quads example_state \<le> total_quads s'"
    by blast+
  have A: "\<exists>s'. run float_scenario [ResolutionMenu 4, ResolutionMenu 0] example_state = Inr s' \<and>
         ready s' \<and>
         total_vertices example_state \<le> total_vertices s' \<and>
         total_quads example_state \<le> total_quads s'"
    using a b by blast
  from t0 p ix
  have B: "\<exists>s0 s1. Mandelbrot_init 100 (- 2, 1 / 2, - 1, 1) (180, 270) ''default'' = Inr s0 \<and>
         run float_scenario [ResolutionMenu 4, ResolutionMenu 0] s0 = Inr s1 \<and> ready s1"
    by blast
  from r p i A B show ?thesis by (intro conjI)
qed

end
